theory Spec2Isabelle
  imports Complex_Main
begin

section \<open>Request values\<close>

text \<open>
  The builder of \<^verbatim>\<open>utils/apiFeatures.js\<close> is constructed in
  \<^verbatim>\<open>controllers/handlerFactory.js\<close> with \<^verbatim>\<open>req.query\<close>, the object
  Express parses from the URL's query string: every value is a string, an array
  of values (\<^verbatim>\<open>?a=1&a=2\<close>) or a nested object (\<^verbatim>\<open>?a[gte]=1\<close>).

  A string is a list of 8-bit characters; the character numbered \<open>n\<close> stands for
  the UTF-16 code unit \<open>n\<close>, so the model covers the strings whose code units
  are below 256.  An object is the list of its properties in enumeration order;
  \<open>map_of\<close> reads a property and yields \<open>None\<close> where JavaScript yields
  \<^verbatim>\<open>undefined\<close>.
\<close>

datatype jsval = JStr string | JArr "jsval list" | JObj "(string \<times> jsval) list"

type_synonym jsobj = "(string \<times> jsval) list"

datatype error = TypeError string | SyntaxError string

text \<open>\<^verbatim>\<open>String.prototype.split(sep)\<close> for a one-character separator, and
  \<^verbatim>\<open>Array.prototype.join(sep)\<close>.\<close>

fun split :: "char \<Rightarrow> string \<Rightarrow> string list" where
  "split sep [] = [[]]"
| "split sep (c # cs) =
     (let ws = split sep cs in if c = sep then [] # ws else (c # hd ws) # tl ws)"

fun join :: "'a list \<Rightarrow> 'a list list \<Rightarrow> 'a list" where
  "join sep [] = []"
| "join sep [w] = w"
| "join sep (w # ws) = w @ sep @ join sep ws"

text \<open>Truthiness of a property that may be absent: \<^verbatim>\<open>undefined\<close> and the empty
  string are falsy, every array and every object is truthy.\<close>

fun truthy :: "jsval option \<Rightarrow> bool" where
  "truthy None = False"
| "truthy (Some (JStr s)) = (s \<noteq> [])"
| "truthy (Some (JArr vs)) = True"
| "truthy (Some (JObj ms)) = True"

section \<open>Numbers\<close>

text \<open>
  A JavaScript number is a double (IEEE 754 binary64).  \<open>Fin q\<close> is the double of
  value \<open>q\<close>, with \<open>Fin 0\<close> the positive zero; \<open>NZero\<close> is the negative zero.
  Every conversion and every arithmetic operation rounds its exact result to the
  nearest double, ties to the even significand (\<open>round64\<close>): a double of exponent
  \<open>e\<close> is a multiple of \<open>2 ^ (e - 52)\<close>, below the normal range the doubles are
  the multiples of \<open>2 ^ -1074\<close>, and a result that rounds to \<open>2 ^ 1024\<close> or more is
  infinite.
\<close>

datatype jsnum = NaN | PInf | NInf | NZero | Fin rat

function bit_length :: "int \<Rightarrow> nat" where
  "bit_length n = (if n \<le> 0 then 0 else Suc (bit_length (n div 2)))"
  by pat_completeness auto
termination
  by (relation "measure nat") auto

declare bit_length.simps [simp del]

definition pow2 :: "int \<Rightarrow> rat" where
  "pow2 e = (if 0 \<le> e then 2 ^ nat e else 1 / 2 ^ nat (- e))"

text \<open>The exponent \<open>e\<close> with \<open>2 ^ e \<le> n / d < 2 ^ (e + 1)\<close>, for positive \<open>n\<close> and
  \<open>d\<close>.\<close>

definition binade :: "int \<Rightarrow> int \<Rightarrow> int" where
  "binade n d = (if d \<le> n then int (bit_length (n div d)) - 1
                 else - int (bit_length ((d + n - 1) div n - 1)))"

text \<open>The integer nearest to \<open>n / d\<close>, the even one of two that are equally near.\<close>

definition round_half_even :: "int \<Rightarrow> int \<Rightarrow> int" where
  "round_half_even n d =
     (if 2 * (n mod d) < d then n div d
      else if d < 2 * (n mod d) then n div d + 1
      else if even (n div d) then n div d else n div d + 1)"

text \<open>The double nearest to \<open>n / d\<close>: a multiple of \<open>2 ^ (e - 52)\<close>, where \<open>e\<close> is
  the exponent of \<open>n / d\<close>, or \<open>-1022\<close> below the normal range.\<close>

definition round64_frac :: "int \<Rightarrow> int \<Rightarrow> jsnum" where
  "round64_frac n d =
     (let e = max (binade n d) (- 1022);
          m = round_half_even (n * 2 ^ nat (52 - e)) (d * 2 ^ nat (e - 52))
      in if 2 ^ 1024 \<le> of_int m * pow2 (e - 52) then PInf
         else Fin (of_int m * pow2 (e - 52)))"

fun jneg :: "jsnum \<Rightarrow> jsnum" where
  "jneg NaN = NaN"
| "jneg PInf = NInf"
| "jneg NInf = PInf"
| "jneg NZero = Fin 0"
| "jneg (Fin q) = (if q = 0 then NZero else Fin (- q))"

definition round64 :: "rat \<Rightarrow> jsnum" where
  "round64 q =
     (case quotient_of q of
        (n, d) \<Rightarrow>
          if n = 0 then Fin 0
          else if 0 < n then round64_frac n d
          else jneg (round64_frac (- n) d))"

definition is_ws :: "char \<Rightarrow> bool" where
  "is_ws c = (of_char c \<in> {9, 10, 11, 12, 13, 32, 160 :: nat})"

definition trim :: "string \<Rightarrow> string" where
  "trim s = rev (dropWhile is_ws (rev (dropWhile is_ws s)))"

definition is_digit :: "char \<Rightarrow> bool" where
  "is_digit c = (48 \<le> (of_char c :: nat) \<and> (of_char c :: nat) \<le> 57)"

definition is_hex_digit :: "char \<Rightarrow> bool" where
  "is_hex_digit c = (is_digit c
     \<or> (97 \<le> (of_char c :: nat) \<and> (of_char c :: nat) \<le> 102)
     \<or> (65 \<le> (of_char c :: nat) \<and> (of_char c :: nat) \<le> 70))"

definition digit_of :: "char \<Rightarrow> nat" where
  "digit_of c = (let n = of_char c in
     if 97 \<le> n then n - 87 else if 65 \<le> n then n - 55 else n - 48)"

definition radix_value :: "nat \<Rightarrow> string \<Rightarrow> nat" where
  "radix_value b ds = foldl (\<lambda>a c. a * b + digit_of c) 0 ds"

definition pow10 :: "int \<Rightarrow> rat" where
  "pow10 e = (if 0 \<le> e then 10 ^ nat e else 1 / 10 ^ nat (- e))"

definition exponent_part :: "string \<Rightarrow> int option" where
  "exponent_part s = (case s of
       [] \<Rightarrow> Some 0
     | c # r \<Rightarrow>
         if c = CHR ''e'' \<or> c = CHR ''E'' then
           (let neg = (r \<noteq> [] \<and> hd r = CHR ''-'');
                ds = (if r \<noteq> [] \<and> (hd r = CHR ''-'' \<or> hd r = CHR ''+'') then tl r else r)
            in if ds \<noteq> [] \<and> list_all is_digit ds
               then Some ((if neg then - 1 else 1) * int (radix_value 10 ds))
               else None)
         else None)"

text \<open>An unsigned decimal literal: \<^verbatim>\<open>Infinity\<close>, or digits with an optional fraction
  and an optional exponent; its value is rounded to a double.\<close>

definition unsigned_decimal :: "string \<Rightarrow> jsnum" where
  "unsigned_decimal s =
     (if s = ''Infinity'' then PInf
      else
        let ip = takeWhile is_digit s;
            r1 = dropWhile is_digit s;
            dot = (r1 \<noteq> [] \<and> hd r1 = CHR ''.'');
            fp = (if dot then takeWhile is_digit (tl r1) else []);
            r2 = (if dot then dropWhile is_digit (tl r1) else r1)
        in if ip = [] \<and> fp = [] then NaN
           else (case exponent_part r2 of
                   None \<Rightarrow> NaN
                 | Some e \<Rightarrow>
                     round64 (of_nat (radix_value 10 (ip @ fp)) * pow10 (e - int (length fp)))))"

definition non_decimal :: "string \<Rightarrow> jsnum option" where
  "non_decimal t = (case t of
       z # x # ds \<Rightarrow>
         if z = CHR ''0'' \<and> ds \<noteq> [] then
           (if (x = CHR ''x'' \<or> x = CHR ''X'') \<and> list_all is_hex_digit ds
              then Some (round64 (of_nat (radix_value 16 ds)))
            else if (x = CHR ''o'' \<or> x = CHR ''O'')
                    \<and> list_all (\<lambda>c. is_digit c \<and> digit_of c < 8) ds
              then Some (round64 (of_nat (radix_value 8 ds)))
            else if (x = CHR ''b'' \<or> x = CHR ''B'')
                    \<and> list_all (\<lambda>c. is_digit c \<and> digit_of c < 2) ds
              then Some (round64 (of_nat (radix_value 2 ds)))
            else None)
         else None
     | _ \<Rightarrow> None)"

text \<open>The conversion of a string to a number (\<^verbatim>\<open>StringToNumber\<close>): white space
  is trimmed, the empty string is zero, and a string that is no numeric literal is
  not-a-number.\<close>

definition string_to_number :: "string \<Rightarrow> jsnum" where
  "string_to_number s =
     (let t = trim s in
      if t = [] then Fin 0
      else (case non_decimal t of
              Some n \<Rightarrow> n
            | None \<Rightarrow>
                if hd t = CHR ''+'' then unsigned_decimal (tl t)
                else if hd t = CHR ''-'' then jneg (unsigned_decimal (tl t))
                else unsigned_decimal t))"

text \<open>
  The string of a value (\<^verbatim>\<open>ToString\<close>), as the conversion of an array or object
  to a primitive yields it.  An array is the strings of its elements, joined by
  commas.  An object is \<^verbatim>\<open>[object Object]\<close> by the inherited \<^verbatim>\<open>toString\<close>; but a
  request object with an own property \<^verbatim>\<open>toString\<close> (\<^verbatim>\<open>?page[toString]=x\<close>) hides
  the inherited method behind a value that cannot be called, the inherited
  \<^verbatim>\<open>valueOf\<close> returns the object itself, and the conversion throws a type error.
\<close>

fun sequence :: "(error + 'a) list \<Rightarrow> error + 'a list" where
  "sequence [] = Inr []"
| "sequence (Inl e # rs) = Inl e"
| "sequence (Inr x # rs) = (case sequence rs of Inl e \<Rightarrow> Inl e | Inr xs \<Rightarrow> Inr (x # xs))"

fun to_string :: "jsval \<Rightarrow> error + string" where
  "to_string (JStr s) = Inr s"
| "to_string (JArr vs) =
     (case sequence (map to_string vs) of Inl e \<Rightarrow> Inl e | Inr ss \<Rightarrow> Inr (join '','' ss))"
| "to_string (JObj ms) =
     (if map_of ms ''toString'' = None then Inr ''[object Object]''
      else Inl (TypeError ''Cannot convert object to primitive value''))"

text \<open>\<^verbatim>\<open>ToNumber\<close> on a property that may be absent: \<^verbatim>\<open>undefined\<close> is
  not-a-number, any other value is converted through its string.\<close>

fun to_number :: "jsval option \<Rightarrow> error + jsnum" where
  "to_number None = Inr NaN"
| "to_number (Some v) =
     (case to_string v of Inl e \<Rightarrow> Inl e | Inr s \<Rightarrow> Inr (string_to_number s))"

text \<open>The value of a finite number, its sign, and the arithmetic of doubles: the
  exact result, rounded.\<close>

fun value_of :: "jsnum \<Rightarrow> rat" where
  "value_of (Fin q) = q"
| "value_of x = 0"

fun negative :: "jsnum \<Rightarrow> bool" where
  "negative NInf = True"
| "negative NZero = True"
| "negative (Fin q) = (q < 0)"
| "negative x = False"

definition is_infinite :: "jsnum \<Rightarrow> bool" where
  "is_infinite x = (x = PInf \<or> x = NInf)"

definition jadd :: "jsnum \<Rightarrow> jsnum \<Rightarrow> jsnum" where
  "jadd x y =
     (if x = NaN \<or> y = NaN then NaN
      else if is_infinite x \<and> is_infinite y then (if x = y then x else NaN)
      else if is_infinite x then x
      else if is_infinite y then y
      else if x = NZero \<and> y = NZero then NZero
      else round64 (value_of x + value_of y))"

definition jsub :: "jsnum \<Rightarrow> jsnum \<Rightarrow> jsnum" where
  "jsub x y = jadd x (jneg y)"

definition jmul :: "jsnum \<Rightarrow> jsnum \<Rightarrow> jsnum" where
  "jmul x y =
     (if x = NaN \<or> y = NaN then NaN
      else if is_infinite x \<or> is_infinite y then
        (if value_of x = 0 \<and> \<not> is_infinite x \<or> value_of y = 0 \<and> \<not> is_infinite y then NaN
         else if negative x = negative y then PInf else NInf)
      else if value_of x * value_of y = 0 then
        (if negative x = negative y then Fin 0 else NZero)
      else round64 (value_of x * value_of y))"

text \<open>\<^verbatim>\<open>a || d\<close> on numbers: the zeros and not-a-number are falsy.\<close>

definition js_or :: "jsnum \<Rightarrow> jsnum \<Rightarrow> jsnum" where
  "js_or a d = (if a = NaN \<or> a = Fin 0 \<or> a = NZero then d else a)"

section \<open>The query backend\<close>

text \<open>
  Modelled from the spec: the query object of the backend (section 6: a
  composable query supporting \<^verbatim>\<open>find\<close>, \<^verbatim>\<open>sort\<close>, \<^verbatim>\<open>select\<close>,
  \<^verbatim>\<open>skip\<close>, \<^verbatim>\<open>limit\<close>) is a library outside the repository.  The descriptor
  keeps what each call was given: the match criteria, sort strings and projection
  strings in call order, and the last skip and limit.
\<close>

record query =
  conditions :: "jsval list"
  sort_calls :: "string list"
  select_calls :: "string list"
  skip_opt :: "jsnum option"
  limit_opt :: "jsnum option"

definition query_find :: "jsval \<Rightarrow> query \<Rightarrow> query" where
  "query_find c q = q\<lparr>conditions := conditions q @ [c]\<rparr>"

definition query_sort :: "string \<Rightarrow> query \<Rightarrow> query" where
  "query_sort s q = q\<lparr>sort_calls := sort_calls q @ [s]\<rparr>"

definition query_select :: "string \<Rightarrow> query \<Rightarrow> query" where
  "query_select s q = q\<lparr>select_calls := select_calls q @ [s]\<rparr>"

definition query_skip :: "jsnum \<Rightarrow> query \<Rightarrow> query" where
  "query_skip n q = q\<lparr>skip_opt := Some n\<rparr>"

definition query_limit :: "jsnum \<Rightarrow> query \<Rightarrow> query" where
  "query_limit n q = q\<lparr>limit_opt := Some n\<rparr>"

text \<open>
  Modelled from the spec: how the backend reads a sort string and a projection
  string (section 3: fields in order, ascending unless prefixed with a minus
  sign; the source's comments say the same of \<^verbatim>\<open>sort('-price ratingsAverage')\<close>
  and \<^verbatim>\<open>select('-__v')\<close>).  Fields are separated by spaces.
\<close>

datatype direction = Asc | Desc

definition signed_fields :: "string \<Rightarrow> (string \<times> bool) list" where
  "signed_fields s =
     map (\<lambda>w. if hd w = CHR ''-'' then (tl w, True) else (w, False))
         (filter (\<lambda>w. w \<noteq> []) (split CHR '' '' s))"

definition sort_order :: "string \<Rightarrow> (string \<times> direction) list" where
  "sort_order s = map (\<lambda>(f, minus). (f, if minus then Desc else Asc)) (signed_fields s)"

datatype projection = Include | Exclude

definition projection_of :: "string \<Rightarrow> (string \<times> projection) list" where
  "projection_of s = map (\<lambda>(f, minus). (f, if minus then Exclude else Include)) (signed_fields s)"

section \<open>Serialising, rewriting and parsing the filter\<close>

text \<open>\<^verbatim>\<open>JSON.stringify\<close> on a request value.  A string is quoted; the quote,
  the backslash and the control characters are escaped, every other character is
  written as it is.\<close>

definition hex_digit :: "nat \<Rightarrow> char" where
  "hex_digit n = ''0123456789abcdef'' ! n"

definition esc_char :: "char \<Rightarrow> string" where
  "esc_char c =
     (if c = CHR 0x22 then [CHR 0x5C, CHR 0x22]
      else if c = CHR 0x5C then [CHR 0x5C, CHR 0x5C]
      else if c = CHR 0x08 then [CHR 0x5C, CHR ''b'']
      else if c = CHR 0x0C then [CHR 0x5C, CHR ''f'']
      else if c = CHR 0x0A then [CHR 0x5C, CHR ''n'']
      else if c = CHR 0x0D then [CHR 0x5C, CHR ''r'']
      else if c = CHR 0x09 then [CHR 0x5C, CHR ''t'']
      else if (of_char c :: nat) < 32 then
        [CHR 0x5C, CHR ''u'', CHR ''0'', CHR ''0'',
         hex_digit (of_char c div 16), hex_digit (of_char c mod 16)]
      else [c])"

definition escape :: "string \<Rightarrow> string" where
  "escape s = concat (map esc_char s)"

definition quote :: "string \<Rightarrow> string" where
  "quote s = CHR 0x22 # escape s @ [CHR 0x22]"

fun stringify :: "jsval \<Rightarrow> string" where
  "stringify (JStr s) = quote s"
| "stringify (JArr vs) = ''['' @ join '','' (map stringify vs) @ '']''"
| "stringify (JObj ms) =
     ''{'' @ join '','' (map (\<lambda>p. quote (fst p) @ '':'' @ stringify (snd p)) ms) @ ''}''"

text \<open>
  \<^verbatim>\<open>queryStr.replace(/\b(gte|gt|lte|lt)\b/g, matchedWord => `$${matchedWord}`)\<close>.
  A word character is a letter, a digit or the underscore; \<^verbatim>\<open>\b\<close> holds between
  two characters of which exactly one is a word character, the ends of the text
  counting as none.  The scan goes from left to right; at each position the
  alternatives are tried in the order written, and after a match it goes on behind
  the matched word.
\<close>

definition is_word_char :: "char \<Rightarrow> bool" where
  "is_word_char c = (let n = of_char c :: nat in
     (48 \<le> n \<and> n \<le> 57) \<or> (65 \<le> n \<and> n \<le> 90) \<or> n = 95 \<or> (97 \<le> n \<and> n \<le> 122))"

definition word_boundary :: "bool \<Rightarrow> string \<Rightarrow> bool" where
  "word_boundary prev cs = (prev \<noteq> (cs \<noteq> [] \<and> is_word_char (hd cs)))"

definition match_here :: "bool \<Rightarrow> string \<Rightarrow> string option" where
  "match_here prev cs =
     (if word_boundary prev cs then
        find (\<lambda>w. take (length w) cs = w \<and> word_boundary True (drop (length w) cs))
             [''gte'', ''gt'', ''lte'', ''lt'']
      else None)"

lemma match_here_length: "match_here prev cs = Some w \<Longrightarrow> 0 < length w \<and> length w \<le> length cs"
  by (auto simp: match_here_def find_Some_iff nth_Cons' split: if_splits)

function replace_from :: "bool \<Rightarrow> string \<Rightarrow> string" where
  "replace_from prev [] = []"
| "replace_from prev (c # cs) =
     (case match_here prev (c # cs) of
        Some w \<Rightarrow> (''$'' @ w) @ replace_from True (drop (length w) (c # cs))
      | None \<Rightarrow> c # replace_from (is_word_char c) cs)"
  by pat_completeness auto
termination
  by (relation "measure (\<lambda>(prev, cs). length cs)") (auto dest: match_here_length)

definition replace :: "string \<Rightarrow> string" where
  "replace s = replace_from False s"

text \<open>
  \<^verbatim>\<open>JSON.parse\<close> on a text of strings, arrays and objects.  The numbers and
  the literals \<^verbatim>\<open>true\<close>, \<^verbatim>\<open>false\<close>, \<^verbatim>\<open>null\<close> of JSON are no request
  values and no text serialised from a request holds them; the model reads them,
  like an escape \<^verbatim>\<open>\uXXXX\<close> of a code unit above 255, as a syntax error.
\<close>

datatype token = TLBrace | TRBrace | TLBrack | TRBrack | TComma | TColon | TString string

definition unescape :: "char \<Rightarrow> char option" where
  "unescape e =
     (if e = CHR 0x22 \<or> e = CHR 0x5C \<or> e = CHR ''/'' then Some e
      else if e = CHR ''b'' then Some (CHR 0x08)
      else if e = CHR ''f'' then Some (CHR 0x0C)
      else if e = CHR ''n'' then Some (CHR 0x0A)
      else if e = CHR ''r'' then Some (CHR 0x0D)
      else if e = CHR ''t'' then Some (CHR 0x09)
      else None)"

definition cons_char :: "char \<Rightarrow> (string \<times> string) option \<Rightarrow> (string \<times> string) option" where
  "cons_char c r = map_option (\<lambda>(s, rest). (c # s, rest)) r"

fun lex_string :: "string \<Rightarrow> (string \<times> string) option" where
  "lex_string [] = None"
| "lex_string (c # cs) =
     (if c = CHR 0x22 then Some ([], cs)
      else if c = CHR 0x5C then
        (case cs of
           [] \<Rightarrow> None
         | e # r \<Rightarrow>
             if e = CHR ''u'' then
               (case r of
                  h3 # h2 # h1 # h0 # r' \<Rightarrow>
                    if list_all is_hex_digit [h3, h2, h1, h0]
                       \<and> radix_value 16 [h3, h2, h1, h0] < 256
                    then cons_char (char_of (radix_value 16 [h3, h2, h1, h0])) (lex_string r')
                    else None
                | _ \<Rightarrow> None)
             else (case unescape e of
                     None \<Rightarrow> None
                   | Some u \<Rightarrow> cons_char u (lex_string r)))
      else if (of_char c :: nat) < 32 then None
      else cons_char c (lex_string cs))"

lemma lex_string_shorter: "lex_string cs = Some (s, rest) \<Longrightarrow> length rest < length cs"
  by (induction cs arbitrary: s rest rule: lex_string.induct)
     (fastforce simp: cons_char_def less_Suc_eq split: if_splits list.splits option.splits)+

definition punctuation :: "char \<Rightarrow> token option" where
  "punctuation c =
     (if c = CHR ''{'' then Some TLBrace else if c = CHR ''}'' then Some TRBrace
      else if c = CHR ''['' then Some TLBrack else if c = CHR '']'' then Some TRBrack
      else if c = CHR '','' then Some TComma else if c = CHR '':'' then Some TColon
      else None)"

definition is_json_ws :: "char \<Rightarrow> bool" where
  "is_json_ws c = (c = CHR '' '' \<or> c = CHR 0x09 \<or> c = CHR 0x0A \<or> c = CHR 0x0D)"

function lex :: "string \<Rightarrow> token list option" where
  "lex [] = Some []"
| "lex (c # cs) =
     (if c = CHR 0x22 then
        (case lex_string cs of
           None \<Rightarrow> None
         | Some (s, rest) \<Rightarrow> map_option ((#) (TString s)) (lex rest))
      else if is_json_ws c then lex cs
      else (case punctuation c of
              None \<Rightarrow> None
            | Some t \<Rightarrow> map_option ((#) t) (lex cs)))"
  by pat_completeness auto
termination
  by (relation "measure length") (auto dest: lex_string_shorter)

text \<open>
  The tokens are read by a machine with a stack of the arrays and objects that are
  open.  A property that occurs twice keeps its first place and takes the later
  value, as an assignment to an existing property does.
\<close>

definition set_prop :: "jsobj \<Rightarrow> string \<Rightarrow> jsval \<Rightarrow> jsobj" where
  "set_prop ms k v =
     (if k \<in> fst ` set ms then map (\<lambda>p. if fst p = k then (k, v) else p) ms
      else ms @ [(k, v)])"

datatype frame = ArrF "jsval list" | ObjF jsobj | KeyF jsobj string

datatype pmode = PValue | PArrStart | PObjStart | PKey | PColon | PAfter | PDone jsval

fun after_value :: "jsval \<Rightarrow> frame list \<Rightarrow> (pmode \<times> frame list) option" where
  "after_value v [] = Some (PDone v, [])"
| "after_value v (ArrF vs # st) = Some (PAfter, ArrF (vs @ [v]) # st)"
| "after_value v (KeyF ms k # st) = Some (PAfter, ObjF (set_prop ms k v) # st)"
| "after_value v (ObjF ms # st) = None"

definition start_value :: "frame list \<Rightarrow> token \<Rightarrow> (pmode \<times> frame list) option" where
  "start_value st t = (case t of
       TString s \<Rightarrow> after_value (JStr s) st
     | TLBrack \<Rightarrow> Some (PArrStart, ArrF [] # st)
     | TLBrace \<Rightarrow> Some (PObjStart, ObjF [] # st)
     | _ \<Rightarrow> None)"

definition start_key :: "frame list \<Rightarrow> token \<Rightarrow> (pmode \<times> frame list) option" where
  "start_key st t = (case (t, st) of
       (TString k, ObjF ms # st') \<Rightarrow> Some (PColon, KeyF ms k # st')
     | _ \<Rightarrow> None)"

definition close_array :: "frame list \<Rightarrow> (pmode \<times> frame list) option" where
  "close_array st = (case st of ArrF vs # st' \<Rightarrow> after_value (JArr vs) st' | _ \<Rightarrow> None)"

definition close_object :: "frame list \<Rightarrow> (pmode \<times> frame list) option" where
  "close_object st = (case st of ObjF ms # st' \<Rightarrow> after_value (JObj ms) st' | _ \<Rightarrow> None)"

definition parse_step :: "pmode \<Rightarrow> frame list \<Rightarrow> token \<Rightarrow> (pmode \<times> frame list) option" where
  "parse_step m st t = (case m of
       PValue \<Rightarrow> start_value st t
     | PArrStart \<Rightarrow> (if t = TRBrack then close_array st else start_value st t)
     | PObjStart \<Rightarrow> (if t = TRBrace then close_object st else start_key st t)
     | PKey \<Rightarrow> start_key st t
     | PColon \<Rightarrow> (if t = TColon then Some (PValue, st) else None)
     | PAfter \<Rightarrow>
         (case st of
            ArrF vs # st' \<Rightarrow>
              (if t = TComma then Some (PValue, st)
               else if t = TRBrack then close_array st else None)
          | ObjF ms # st' \<Rightarrow>
              (if t = TComma then Some (PKey, st)
               else if t = TRBrace then close_object st else None)
          | _ \<Rightarrow> None)
     | PDone v \<Rightarrow> None)"

fun parse_tokens :: "pmode \<Rightarrow> frame list \<Rightarrow> token list \<Rightarrow> jsval option" where
  "parse_tokens (PDone v) st [] = Some v"
| "parse_tokens m st [] = None"
| "parse_tokens m st (t # ts) =
     (case parse_step m st t of
        None \<Rightarrow> None
      | Some (m', st') \<Rightarrow> parse_tokens m' st' ts)"

definition JSON_parse :: "string \<Rightarrow> error + jsval" where
  "JSON_parse text =
     (case lex text of
        None \<Rightarrow> Inl (SyntaxError ''JSON.parse'')
      | Some ts \<Rightarrow>
          (case parse_tokens PValue [] ts of
             None \<Rightarrow> Inl (SyntaxError ''JSON.parse'')
           | Some v \<Rightarrow> Inr v))"

section \<open>The builder\<close>

record APIFeatures =
  mongooseQuery :: query
  expressQueryString :: jsobj

definition excludedFields :: "string list" where
  "excludedFields = [''page'', ''sort'', ''limit'', ''fields'']"

text \<open>\<^verbatim>\<open>delete queryObj[el]\<close> on the copy of the request.\<close>

definition delete_prop :: "string \<Rightarrow> jsobj \<Rightarrow> jsobj" where
  "delete_prop el queryObj = filter (\<lambda>p. fst p \<noteq> el) queryObj"

definition APIFeatures_filter :: "APIFeatures \<Rightarrow> error + APIFeatures" where
  "APIFeatures_filter this =
     (let queryObj = fold delete_prop excludedFields (expressQueryString this);
          queryStr = replace (stringify (JObj queryObj))
      in case JSON_parse queryStr of
           Inl e \<Rightarrow> Inl e
         | Inr criteria \<Rightarrow>
             Inr (this\<lparr>mongooseQuery := query_find criteria (mongooseQuery this)\<rparr>))"

definition APIFeatures_sort :: "APIFeatures \<Rightarrow> error + APIFeatures" where
  "APIFeatures_sort this =
     (if truthy (map_of (expressQueryString this) ''sort'') then
        (case map_of (expressQueryString this) ''sort'' of
           Some (JStr s) \<Rightarrow>
             (let sortBy = join '' '' (split CHR '','' s)
              in Inr (this\<lparr>mongooseQuery := query_sort sortBy (mongooseQuery this)\<rparr>))
         | _ \<Rightarrow> Inl (TypeError ''this.expressQueryString.sort.split is not a function''))
      else Inr (this\<lparr>mongooseQuery := query_sort ''-createdAt _id'' (mongooseQuery this)\<rparr>))"

definition APIFeatures_limitFields :: "APIFeatures \<Rightarrow> error + APIFeatures" where
  "APIFeatures_limitFields this =
     (if truthy (map_of (expressQueryString this) ''fields'') then
        (case map_of (expressQueryString this) ''fields'' of
           Some (JStr s) \<Rightarrow>
             (let fields = join '' '' (split CHR '','' s)
              in Inr (this\<lparr>mongooseQuery := query_select fields (mongooseQuery this)\<rparr>))
         | _ \<Rightarrow> Inl (TypeError ''this.expressQueryString.fields.split is not a function''))
      else Inr (this\<lparr>mongooseQuery := query_select ''-__v'' (mongooseQuery this)\<rparr>))"

text \<open>
  \<^verbatim>\<open>page * 1 || 1\<close> and \<^verbatim>\<open>limit * 1 || 100\<close>, in this order: the conversion of
  the page to a number may throw before the limit is looked at.
\<close>

definition APIFeatures_paginate :: "APIFeatures \<Rightarrow> error + APIFeatures" where
  "APIFeatures_paginate this =
     (case to_number (map_of (expressQueryString this) ''page'') of
        Inl e \<Rightarrow> Inl e
      | Inr p \<Rightarrow>
          (let page = js_or (jmul p (Fin 1)) (Fin 1) in
           case to_number (map_of (expressQueryString this) ''limit'') of
             Inl e \<Rightarrow> Inl e
           | Inr l \<Rightarrow>
               (let limit = js_or (jmul l (Fin 1)) (Fin 100);
                    skip = jmul (jsub page (Fin 1)) limit
                in Inr (this\<lparr>mongooseQuery :=
                          query_limit limit (query_skip skip (mongooseQuery this))\<rparr>))))"

text \<open>
  A method that throws ends the chain; \<open>Inl\<close> is the error thrown.  The chain
  is the one of \<^verbatim>\<open>getAll\<close> in \<^verbatim>\<open>controllers/handlerFactory.js\<close>.
\<close>

definition then_call :: "error + 'a \<Rightarrow> ('a \<Rightarrow> error + 'b) \<Rightarrow> error + 'b" where
  "then_call r f = (case r of Inl e \<Rightarrow> Inl e | Inr x \<Rightarrow> f x)"

definition APIFeatures_new :: "query \<Rightarrow> jsobj \<Rightarrow> APIFeatures" where
  "APIFeatures_new q r = \<lparr>mongooseQuery = q, expressQueryString = r\<rparr>"

definition Model_find :: "jsval \<Rightarrow> query" where
  "Model_find f = \<lparr>conditions = [f], sort_calls = [], select_calls = [],
                    skip_opt = None, limit_opt = None\<rparr>"

definition features :: "query \<Rightarrow> jsobj \<Rightarrow> error + APIFeatures" where
  "features q r =
     then_call (then_call (then_call (APIFeatures_filter (APIFeatures_new q r))
       APIFeatures_sort) APIFeatures_limitFields) APIFeatures_paginate"

text \<open>
  The outcome of a chain forgets which error was thrown.  \<open>chain\<close> calls the
  methods of a list one after the other; \<open>orders\<close> lists the six orders of
  \<^verbatim>\<open>filter\<close>, \<^verbatim>\<open>sort\<close> and \<^verbatim>\<open>limitFields\<close>.
\<close>

definition outcome :: "error + APIFeatures \<Rightarrow> APIFeatures option" where
  "outcome r = (case r of Inl e \<Rightarrow> None | Inr b \<Rightarrow> Some b)"

definition chain :: "(APIFeatures \<Rightarrow> error + APIFeatures) list \<Rightarrow> APIFeatures \<Rightarrow> error + APIFeatures" where
  "chain ms b = foldl then_call (Inr b) ms"

definition orders :: "(APIFeatures \<Rightarrow> error + APIFeatures) list list" where
  "orders =
     [[APIFeatures_filter, APIFeatures_sort, APIFeatures_limitFields],
      [APIFeatures_filter, APIFeatures_limitFields, APIFeatures_sort],
      [APIFeatures_sort, APIFeatures_filter, APIFeatures_limitFields],
      [APIFeatures_sort, APIFeatures_limitFields, APIFeatures_filter],
      [APIFeatures_limitFields, APIFeatures_filter, APIFeatures_sort],
      [APIFeatures_limitFields, APIFeatures_sort, APIFeatures_filter]]"

text \<open>
  Modelled from the spec: how the backend orders the records under a sort order
  (section 3, section 8: by the first field, ties broken by the next).  A record is
  read through the integer values of its ordered fields.
\<close>

type_synonym document = "string \<Rightarrow> int"

fun precedes :: "(string \<times> direction) list \<Rightarrow> document \<Rightarrow> document \<Rightarrow> bool" where
  "precedes [] a b = False"
| "precedes ((f, d) # fs) a b =
     (if a f = b f then precedes fs a b
      else (case d of Asc \<Rightarrow> a f < b f | Desc \<Rightarrow> b f < a f))"

section \<open>What the filter computes\<close>

text \<open>
  The round trip through the serialised text, described on the values themselves;
  the lemmas below prove that \<^verbatim>\<open>filter()\<close> computes it.  \<open>rewrite_from\<close> is
  the replacement seen from inside a quoted string: the scan is the one of
  \<open>replace_from\<close>, but behind a character that is serialised as an escape
  sequence the preceding character is the last one of that sequence (a letter or a
  digit).  \<open>normalise\<close> is what parsing makes of properties that occur twice.
\<close>

function rewrite_from :: "bool \<Rightarrow> string \<Rightarrow> string" where
  "rewrite_from prev [] = []"
| "rewrite_from prev (c # cs) =
     (case match_here prev (c # cs) of
        Some w \<Rightarrow> (''$'' @ w) @ rewrite_from True (drop (length w) (c # cs))
      | None \<Rightarrow> c # rewrite_from (is_word_char (last (esc_char c))) cs)"
  by pat_completeness auto
termination
  by (relation "measure (\<lambda>(prev, cs). length cs)") (auto dest: match_here_length)

fun rewrite :: "jsval \<Rightarrow> jsval" where
  "rewrite (JStr s) = JStr (rewrite_from False s)"
| "rewrite (JArr vs) = JArr (map rewrite vs)"
| "rewrite (JObj ms) = JObj (map (\<lambda>p. (rewrite_from False (fst p), rewrite (snd p))) ms)"

fun tokens_of :: "jsval \<Rightarrow> token list" where
  "tokens_of (JStr s) = [TString s]"
| "tokens_of (JArr vs) = TLBrack # join [TComma] (map tokens_of vs) @ [TRBrack]"
| "tokens_of (JObj ms) =
     TLBrace # join [TComma] (map (\<lambda>p. TString (fst p) # TColon # tokens_of (snd p)) ms) @ [TRBrace]"

fun normalise :: "jsval \<Rightarrow> jsval" where
  "normalise (JStr s) = JStr s"
| "normalise (JArr vs) = JArr (map normalise vs)"
| "normalise (JObj ms) = JObj (foldl (\<lambda>acc p. set_prop acc (fst p) (normalise (snd p))) [] ms)"

text \<open>Going on with the rest of the tokens after a step of the parser.\<close>

definition continue :: "(pmode \<times> frame list) option \<Rightarrow> token list \<Rightarrow> jsval option" where
  "continue r ts = (case r of None \<Rightarrow> None | Some (m, st) \<Rightarrow> parse_tokens m st ts)"

section \<open>Evaluation and helper lemmas\<close>

lemmas text_defs = replace_def match_here_def word_boundary_def is_word_char_def
  quote_def escape_def esc_char_def JSON_parse_def punctuation_def is_json_ws_def cons_char_def
  parse_step_def start_value_def start_key_def close_array_def close_object_def set_prop_def
  unescape_def

lemmas builder_defs = features_def then_call_def APIFeatures_new_def APIFeatures_filter_def
  APIFeatures_sort_def APIFeatures_limitFields_def excludedFields_def delete_prop_def

section \<open>Pagination\<close>

lemma bit_length_numeral:
  "bit_length 0 = 0" "bit_length 1 = 1"
  "bit_length (numeral k) = Suc (bit_length (numeral k div 2))"
  by (subst bit_length.simps, simp add: bit_length.simps [of 0])+

lemma round64_numeral:
  "round64 0 = Fin 0"
  "round64 1 = round64_frac 1 1"
  "round64 (numeral k) = round64_frac (numeral k) 1"
  "round64 (- 1) = jneg (round64_frac 1 1)"
  "round64 (- numeral k) = jneg (round64_frac (numeral k) 1)"
  by (simp_all add: round64_def)

lemmas round_eval = round64_numeral round64_frac_def round_half_even_def binade_def pow2_def
  bit_length_numeral

lemmas number_defs = string_to_number_def trim_def is_ws_def non_decimal_def unsigned_decimal_def
  is_digit_def is_hex_digit_def exponent_part_def radix_value_def digit_of_def pow10_def
  js_or_def jsub_def jadd_def jmul_def is_infinite_def round_eval

lemmas query_defs = query_find_def query_sort_def query_select_def query_skip_def query_limit_def

lemma paginate_eq:
  "APIFeatures_paginate this =
     (case to_number (map_of (expressQueryString this) ''page'') of
        Inl e \<Rightarrow> Inl e
      | Inr p \<Rightarrow>
          (case to_number (map_of (expressQueryString this) ''limit'') of
             Inl e \<Rightarrow> Inl e
           | Inr l \<Rightarrow>
               Inr (this\<lparr>mongooseQuery := (mongooseQuery this)
                 \<lparr>skip_opt := Some (jmul (jsub (js_or (jmul p (Fin 1)) (Fin 1)) (Fin 1))
                                        (js_or (jmul l (Fin 1)) (Fin 100))),
                  limit_opt := Some (js_or (jmul l (Fin 1)) (Fin 100))\<rparr>\<rparr>)))"
  by (simp add: APIFeatures_paginate_def Let_def query_skip_def query_limit_def split: sum.splits)

lemma absent_defaults:
  "js_or (jmul NaN (Fin 1)) (Fin 1) = Fin 1" "js_or (jmul NaN (Fin 1)) (Fin 100) = Fin 100"
  by (simp_all add: js_or_def jmul_def)

lemma small_products:
  "jmul (jsub (Fin 1) (Fin 1)) (Fin 100) = Fin 0"
  "js_or (jmul (string_to_number ''2'') (Fin 1)) (Fin 1) = Fin 2"
  "js_or (jmul (string_to_number ''10'') (Fin 1)) (Fin 100) = Fin 10"
  "jmul (jsub (Fin 2) (Fin 1)) (Fin 10) = Fin 10"
  by (simp_all add: number_defs)

text \<open>
  C3.  \<^verbatim>\<open>paginate()\<close> returns for every request whose page and limit parameters
  are absent or strings.  For every request on which it returns, the page and the limit
  parameter convert to numbers, and it sets skip to \<open>(page - 1) * limit\<close> in the
  arithmetic of doubles, and the limit, where the page is the converted parameter or,
  where that is falsy, 1, and the limit the converted parameter or 100; the page is 1
  and the limit is 100 when the parameter is absent.  For a request with neither
  parameter it returns with skip 0 and limit 100; for a request with page \<^verbatim>\<open>'2'\<close> and
  limit \<^verbatim>\<open>'10'\<close> it returns with skip 10.
\<close>

theorem paginate_skip_of_page_and_limit:
  "((map_of (expressQueryString this) ''page'' = None
       \<or> (\<exists>s. map_of (expressQueryString this) ''page'' = Some (JStr s)))
      \<and> (map_of (expressQueryString this) ''limit'' = None
       \<or> (\<exists>s. map_of (expressQueryString this) ''limit'' = Some (JStr s)))
     \<longrightarrow> (\<exists>b. APIFeatures_paginate this = Inr b))
   \<and> (\<forall>b. APIFeatures_paginate this = Inr b \<longrightarrow>
      (\<exists>p l. to_number (map_of (expressQueryString this) ''page'') = Inr p
         \<and> to_number (map_of (expressQueryString this) ''limit'') = Inr l
         \<and> b = this\<lparr>mongooseQuery := (mongooseQuery this)
                 \<lparr>skip_opt := Some (jmul (jsub (js_or (jmul p (Fin 1)) (Fin 1)) (Fin 1))
                                        (js_or (jmul l (Fin 1)) (Fin 100))),
                  limit_opt := Some (js_or (jmul l (Fin 1)) (Fin 100))\<rparr>\<rparr>
         \<and> (map_of (expressQueryString this) ''page'' = None
              \<longrightarrow> js_or (jmul p (Fin 1)) (Fin 1) = Fin 1)
         \<and> (map_of (expressQueryString this) ''limit'' = None
              \<longrightarrow> js_or (jmul l (Fin 1)) (Fin 100) = Fin 100)))
   \<and> (map_of (expressQueryString this) ''page'' = None
        \<and> map_of (expressQueryString this) ''limit'' = None
       \<longrightarrow> APIFeatures_paginate this
            = Inr (this\<lparr>mongooseQuery := (mongooseQuery this)
                     \<lparr>skip_opt := Some (Fin 0), limit_opt := Some (Fin 100)\<rparr>\<rparr>))
   \<and> (map_of (expressQueryString this) ''page'' = Some (JStr ''2'')
        \<and> map_of (expressQueryString this) ''limit'' = Some (JStr ''10'')
       \<longrightarrow> APIFeatures_paginate this
            = Inr (this\<lparr>mongooseQuery := (mongooseQuery this)
                     \<lparr>skip_opt := Some (Fin 10), limit_opt := Some (Fin 10)\<rparr>\<rparr>))"
proof (intro conjI allI impI)
  assume "(map_of (expressQueryString this) ''page'' = None
       \<or> (\<exists>s. map_of (expressQueryString this) ''page'' = Some (JStr s)))
      \<and> (map_of (expressQueryString this) ''limit'' = None
       \<or> (\<exists>s. map_of (expressQueryString this) ''limit'' = Some (JStr s)))"
  then show "\<exists>b. APIFeatures_paginate this = Inr b"
    by (auto simp: paginate_eq)
next
  fix b
  assume "APIFeatures_paginate this = Inr b"
  then show "\<exists>p l. to_number (map_of (expressQueryString this) ''page'') = Inr p
         \<and> to_number (map_of (expressQueryString this) ''limit'') = Inr l
         \<and> b = this\<lparr>mongooseQuery := (mongooseQuery this)
                 \<lparr>skip_opt := Some (jmul (jsub (js_or (jmul p (Fin 1)) (Fin 1)) (Fin 1))
                                        (js_or (jmul l (Fin 1)) (Fin 100))),
                  limit_opt := Some (js_or (jmul l (Fin 1)) (Fin 100))\<rparr>\<rparr>
         \<and> (map_of (expressQueryString this) ''page'' = None
              \<longrightarrow> js_or (jmul p (Fin 1)) (Fin 1) = Fin 1)
         \<and> (map_of (expressQueryString this) ''limit'' = None
              \<longrightarrow> js_or (jmul l (Fin 1)) (Fin 100) = Fin 100)"
    by (auto simp: paginate_eq absent_defaults split: sum.splits)
next
  assume "map_of (expressQueryString this) ''page'' = None
        \<and> map_of (expressQueryString this) ''limit'' = None"
  then show "APIFeatures_paginate this
            = Inr (this\<lparr>mongooseQuery := (mongooseQuery this)
                     \<lparr>skip_opt := Some (Fin 0), limit_opt := Some (Fin 100)\<rparr>\<rparr>)"
    by (simp add: paginate_eq absent_defaults small_products)
next
  assume "map_of (expressQueryString this) ''page'' = Some (JStr ''2'')
        \<and> map_of (expressQueryString this) ''limit'' = Some (JStr ''10'')"
  then show "APIFeatures_paginate this
            = Inr (this\<lparr>mongooseQuery := (mongooseQuery this)
                     \<lparr>skip_opt := Some (Fin 10), limit_opt := Some (Fin 10)\<rparr>\<rparr>)"
    by (simp add: paginate_eq small_products)
qed

theorem paginate_skip_witness:
  "APIFeatures_paginate (APIFeatures_new (Model_find (JObj [])) [(''page'', JStr ''2''), (''limit'', JStr ''10'')])
     = Inr (APIFeatures_new ((Model_find (JObj []))\<lparr>skip_opt := Some (Fin 10), limit_opt := Some (Fin 10)\<rparr>)
              [(''page'', JStr ''2''), (''limit'', JStr ''10'')])
   \<and> APIFeatures_paginate (APIFeatures_new (Model_find (JObj [])) [])
     = Inr (APIFeatures_new ((Model_find (JObj []))\<lparr>skip_opt := Some (Fin 0), limit_opt := Some (Fin 100)\<rparr>) [])"
  using paginate_skip_of_page_and_limit
          [of "APIFeatures_new (Model_find (JObj [])) [(''page'', JStr ''2''), (''limit'', JStr ''10'')]"]
        paginate_skip_of_page_and_limit [of "APIFeatures_new (Model_find (JObj [])) []"]
  by (simp add: APIFeatures_new_def Model_find_def)

text \<open>
  Not for every request: for \<^verbatim>\<open>?page[toString]=x\<close> the page is an object with an
  own property \<^verbatim>\<open>toString\<close>, and \<^verbatim>\<open>paginate()\<close> throws a type error.  And not
  in exact arithmetic: the page \<^verbatim>\<open>'9007199254740993'\<close> converts to the double
  9007199254740992, so with limit \<^verbatim>\<open>'1'\<close> the skip is 9007199254740991, one less than
  the page of the request minus one.
\<close>

theorem paginate_skip_counterexample:
  "APIFeatures_paginate
      (APIFeatures_new (Model_find (JObj [])) [(''page'', JObj [(''toString'', JStr ''x'')])])
     = Inl (TypeError ''Cannot convert object to primitive value'')
   \<and> APIFeatures_paginate
      (APIFeatures_new (Model_find (JObj []))
         [(''page'', JStr ''9007199254740993''), (''limit'', JStr ''1'')])
     = Inr (APIFeatures_new
         ((Model_find (JObj []))\<lparr>skip_opt := Some (Fin 9007199254740991), limit_opt := Some (Fin 1)\<rparr>)
         [(''page'', JStr ''9007199254740993''), (''limit'', JStr ''1'')])"
  by (simp add: paginate_eq APIFeatures_new_def Model_find_def number_defs)

text \<open>
  C10.  A request with limit \<^verbatim>\<open>'0'\<close> does not always get the limit 100: for
  \<^verbatim>\<open>?limit=0&page[toString]=x\<close> the conversion of the page throws a type error
  before the limit is looked at.
\<close>

theorem paginate_throws_before_the_limit_defaults:
  "APIFeatures_paginate
      (APIFeatures_new (Model_find (JObj []))
         [(''limit'', JStr ''0''), (''page'', JObj [(''toString'', JStr ''x'')])])
     = Inl (TypeError ''Cannot convert object to primitive value'')"
  by (simp add: paginate_eq APIFeatures_new_def)

text \<open>
  Where \<^verbatim>\<open>paginate()\<close> returns, a page or limit parameter that is the string
  \<^verbatim>\<open>'0'\<close> or the empty string gives the default (page 1, so skip is
  \<open>(1 - 1) * limit\<close>; limit 100), and the limit given to the backend is never zero.
\<close>

lemma paginate_zero_falls_back_to_defaults:
  assumes "APIFeatures_paginate this = Inr b"
  shows "(map_of (expressQueryString this) ''limit'' \<in> {Some (JStr ''0''), Some (JStr '''')}
            \<longrightarrow> limit_opt (mongooseQuery b) = Some (Fin 100))
       \<and> (map_of (expressQueryString this) ''page'' \<in> {Some (JStr ''0''), Some (JStr '''')}
            \<longrightarrow> (\<exists>limit. limit_opt (mongooseQuery b) = Some limit
                  \<and> skip_opt (mongooseQuery b) = Some (jmul (jsub (Fin 1) (Fin 1)) limit)))
       \<and> limit_opt (mongooseQuery b) \<noteq> Some (Fin 0)
       \<and> limit_opt (mongooseQuery b) \<noteq> Some NZero
       \<and> limit_opt (mongooseQuery b) \<noteq> Some NaN"
proof -
  have zero: "string_to_number ''0'' = Fin 0" and empty: "string_to_number '''' = Fin 0"
    by (simp_all add: number_defs)
  have falsy: "js_or (jmul (Fin 0) (Fin 1)) d = d" for d
    by (simp add: js_or_def jmul_def is_infinite_def)
  from assms obtain p l where
    p: "to_number (map_of (expressQueryString this) ''page'') = Inr p"
    and l: "to_number (map_of (expressQueryString this) ''limit'') = Inr l"
    and b: "b = this\<lparr>mongooseQuery := (mongooseQuery this)
                 \<lparr>skip_opt := Some (jmul (jsub (js_or (jmul p (Fin 1)) (Fin 1)) (Fin 1))
                                        (js_or (jmul l (Fin 1)) (Fin 100))),
                  limit_opt := Some (js_or (jmul l (Fin 1)) (Fin 100))\<rparr>\<rparr>"
    by (auto simp: paginate_eq split: sum.splits)
  have limit: "limit_opt (mongooseQuery b) = Some (js_or (jmul l (Fin 1)) (Fin 100))"
    and skip: "skip_opt (mongooseQuery b)
      = Some (jmul (jsub (js_or (jmul p (Fin 1)) (Fin 1)) (Fin 1)) (js_or (jmul l (Fin 1)) (Fin 100)))"
    by (simp_all add: b)
  have "l = Fin 0" if "map_of (expressQueryString this) ''limit'' \<in> {Some (JStr ''0''), Some (JStr '''')}"
    using that l by (auto simp: zero empty)
  moreover have "p = Fin 0"
    if "map_of (expressQueryString this) ''page'' \<in> {Some (JStr ''0''), Some (JStr '''')}"
    using that p by (auto simp: zero empty)
  moreover have "js_or (jmul l (Fin 1)) (Fin 100) \<noteq> Fin 0"
    "js_or (jmul l (Fin 1)) (Fin 100) \<noteq> NZero" "js_or (jmul l (Fin 1)) (Fin 100) \<noteq> NaN"
    by (simp_all add: js_or_def)
  ultimately show ?thesis
    unfolding limit skip by (auto simp: falsy)
qed

section \<open>Sorting, projection and the chain\<close>

lemma sort_order_default: "sort_order ''-createdAt _id'' = [(''createdAt'', Desc), (''_id'', Asc)]"
  by (simp add: sort_order_def signed_fields_def)

text \<open>
  C4.  For every request without a sort parameter, \<^verbatim>\<open>sort()\<close> gives the backend
  the sort string \<^verbatim>\<open>'-createdAt _id'\<close>: creation time descending, then identifier
  ascending.  Under that order a record comes before another exactly if it is newer,
  or as old and of smaller identifier; the order is irreflexive and transitive, and
  of two records with different identifiers exactly one comes first.
\<close>
theorem sort_defaults_to_newest_first:
  assumes "map_of (expressQueryString this) ''sort'' = None"
  shows "APIFeatures_sort this
           = Inr (this\<lparr>mongooseQuery := query_sort ''-createdAt _id'' (mongooseQuery this)\<rparr>)
       \<and> sort_order ''-createdAt _id'' = [(''createdAt'', Desc), (''_id'', Asc)]
       \<and> (\<forall>a b. precedes (sort_order ''-createdAt _id'') a b
                 = (b ''createdAt'' < a ''createdAt''
                    \<or> (a ''createdAt'' = b ''createdAt'' \<and> a ''_id'' < b ''_id'')))
       \<and> (\<forall>a b c. \<not> precedes (sort_order ''-createdAt _id'') a a
            \<and> (precedes (sort_order ''-createdAt _id'') a b
                 \<and> precedes (sort_order ''-createdAt _id'') b c
                 \<longrightarrow> precedes (sort_order ''-createdAt _id'') a c)
            \<and> (a ''_id'' \<noteq> b ''_id''
                 \<longrightarrow> precedes (sort_order ''-createdAt _id'') a b
                   \<noteq> precedes (sort_order ''-createdAt _id'') b a))"
  using assms by (auto simp: APIFeatures_sort_def sort_order_default)

theorem sort_default_witness:
  "map_of (expressQueryString (APIFeatures_new (Model_find (JObj [])) [])) ''sort'' = None
   \<and> APIFeatures_sort (APIFeatures_new (Model_find (JObj [])) [])
       = Inr (APIFeatures_new (query_sort ''-createdAt _id'' (Model_find (JObj []))) [])
   \<and> precedes (sort_order ''-createdAt _id'')
        ((\<lambda>f. 0)(''createdAt'' := 7, ''_id'' := 1)) ((\<lambda>f. 0)(''createdAt'' := 7, ''_id'' := 2))
   \<and> \<not> precedes (sort_order ''-createdAt _id'')
        ((\<lambda>f. 0)(''createdAt'' := 7, ''_id'' := 2)) ((\<lambda>f. 0)(''createdAt'' := 7, ''_id'' := 1))"
proof -
  have absent: "map_of (expressQueryString (APIFeatures_new (Model_find (JObj [])) [])) ''sort'' = None"
    by (simp add: APIFeatures_new_def)
  from sort_defaults_to_newest_first [OF absent] absent show ?thesis
    by (simp add: APIFeatures_new_def)
qed

text \<open>
  C6.  Not every request is handled without an error: for the request
  \<^verbatim>\<open>?sort[a]=b\<close>, whose sort parameter is the object \<^verbatim>\<open>{a: 'b'}\<close>, the call
  \<^verbatim>\<open>sort()\<close> throws a type error, and so does the chain.
\<close>
theorem sort_throws_on_object_valued_sort:
  "APIFeatures_sort (APIFeatures_new (Model_find (JObj [])) [(''sort'', JObj [(''a'', JStr ''b'')])])
     = Inl (TypeError ''this.expressQueryString.sort.split is not a function'')
   \<and> features (Model_find (JObj [])) [(''sort'', JObj [(''a'', JStr ''b'')])]
     = Inl (TypeError ''this.expressQueryString.sort.split is not a function'')"
  by (simp add: builder_defs text_defs query_defs)

text \<open>
  C1.  \<^verbatim>\<open>filter()\<close> does not leave every field value and every other field name
  as it is: the replacement runs over the serialised text, so the value \<^verbatim>\<open>'gt'\<close>
  of \<^verbatim>\<open>?name=gt\<close> becomes \<^verbatim>\<open>'$gt'\<close>, and the field name of
  \<^verbatim>\<open>?rating-gt=4\<close> becomes \<^verbatim>\<open>'rating-$gt'\<close>.
\<close>
theorem filter_rewrites_values_and_plain_keys:
  "APIFeatures_filter (APIFeatures_new (Model_find (JObj [])) [(''name'', JStr ''gt'')])
     = Inr (APIFeatures_new (query_find (JObj [(''name'', JStr ''$gt'')]) (Model_find (JObj [])))
              [(''name'', JStr ''gt'')])
   \<and> APIFeatures_filter (APIFeatures_new (Model_find (JObj [])) [(''rating-gt'', JStr ''4'')])
     = Inr (APIFeatures_new (query_find (JObj [(''rating-$gt'', JStr ''4'')]) (Model_find (JObj [])))
              [(''rating-gt'', JStr ''4'')])"
  by (simp add: builder_defs text_defs query_defs)

text \<open>
  C2.  For the request \<^verbatim>\<open>{difficulty: 'easy', sort: '-price,ratingsAverage',
  fields: 'name,price', page: '2', limit: '5'}\<close> the chain adds to any base query the
  match criteria \<^verbatim>\<open>{difficulty: 'easy'}\<close>, the sort by price descending then
  ratingsAverage ascending, the projection of name and price, skip 5 and limit 5.
\<close>
theorem end_to_end_scenario:
  "features q [(''difficulty'', JStr ''easy''), (''sort'', JStr ''-price,ratingsAverage''),
               (''fields'', JStr ''name,price''), (''page'', JStr ''2''), (''limit'', JStr ''5'')]
     = Inr \<lparr>mongooseQuery = q
              \<lparr>conditions := conditions q @ [JObj [(''difficulty'', JStr ''easy'')]],
               sort_calls := sort_calls q @ [''-price ratingsAverage''],
               select_calls := select_calls q @ [''name price''],
               skip_opt := Some (Fin 5), limit_opt := Some (Fin 5)\<rparr>,
            expressQueryString =
              [(''difficulty'', JStr ''easy''), (''sort'', JStr ''-price,ratingsAverage''),
               (''fields'', JStr ''name,price''), (''page'', JStr ''2''), (''limit'', JStr ''5'')]\<rparr>
   \<and> sort_order ''-price ratingsAverage'' = [(''price'', Desc), (''ratingsAverage'', Asc)]
   \<and> projection_of ''name price'' = [(''name'', Include), (''price'', Include)]"
  by (simp add: builder_defs text_defs query_defs paginate_eq number_defs sort_order_def
        projection_of_def signed_fields_def)

lemma split_no_sep: "sep \<notin> set w \<Longrightarrow> split sep w = [w]"
  by (induction w) (auto simp: Let_def)

lemma split_append_sep: "sep \<notin> set w \<Longrightarrow> split sep (w @ sep # rest) = w # split sep rest"
  by (induction w) (auto simp: Let_def)

lemma split_join:
  "ws \<noteq> [] \<Longrightarrow> \<forall>w \<in> set ws. sep \<notin> set w \<Longrightarrow> split sep (join [sep] ws) = ws"
  by (induction "[sep]" ws rule: join.induct) (auto simp: split_no_sep split_append_sep)

lemma split_not_empty: "split sep s \<noteq> []"
  by (induction s) (auto simp: Let_def)

lemma projection_of_plain_fields:
  assumes "\<forall>f \<in> set ws. f \<noteq> [] \<and> hd f \<noteq> CHR ''-'' \<and> CHR '' '' \<notin> set f" and "ws \<noteq> []"
  shows "projection_of (join '' '' ws) = map (\<lambda>f. (f, Include)) ws"
proof -
  have "split CHR '' '' (join '' '' ws) = ws"
    using assms by (intro split_join) auto
  moreover have "filter (\<lambda>w. w \<noteq> []) ws = ws"
    using assms by (auto simp: filter_id_conv)
  ultimately show ?thesis
    using assms by (auto simp: projection_of_def signed_fields_def)
qed

text \<open>
  C8.  For every request whose fields parameter is a non-empty string,
  \<^verbatim>\<open>limitFields()\<close> splits it at the commas and gives the backend the parts joined
  by spaces; where no part is empty, begins with a minus sign or holds a space, that
  projection includes exactly the parts.  For every request whose fields parameter is
  absent or the empty string, it gives \<^verbatim>\<open>'-__v'\<close>: every field except \<^verbatim>\<open>__v\<close>.
\<close>
theorem limitFields_projects_the_comma_separated_fields:
  "(map_of (expressQueryString this) ''fields'' = Some (JStr s) \<and> s \<noteq> [] \<longrightarrow>
      APIFeatures_limitFields this
        = Inr (this\<lparr>mongooseQuery := query_select (join '' '' (split CHR '','' s)) (mongooseQuery this)\<rparr>)
      \<and> ((\<forall>f \<in> set (split CHR '','' s). f \<noteq> [] \<and> hd f \<noteq> CHR ''-'' \<and> CHR '' '' \<notin> set f)
           \<longrightarrow> projection_of (join '' '' (split CHR '','' s))
                 = map (\<lambda>f. (f, Include)) (split CHR '','' s)))
   \<and> (map_of (expressQueryString this) ''fields'' \<in> {None, Some (JStr [])} \<longrightarrow>
      APIFeatures_limitFields this
        = Inr (this\<lparr>mongooseQuery := query_select ''-__v'' (mongooseQuery this)\<rparr>)
      \<and> projection_of ''-__v'' = [(''__v'', Exclude)])"
  by (auto simp: APIFeatures_limitFields_def projection_of_plain_fields split_not_empty)
     (simp_all add: projection_of_def signed_fields_def)

theorem limitFields_witness:
  "APIFeatures_limitFields (APIFeatures_new (Model_find (JObj [])) [(''fields'', JStr ''name,price'')])
     = Inr (APIFeatures_new (query_select ''name price'' (Model_find (JObj [])))
              [(''fields'', JStr ''name,price'')])
   \<and> projection_of ''name price'' = [(''name'', Include), (''price'', Include)]
   \<and> APIFeatures_limitFields (APIFeatures_new (Model_find (JObj [])) [])
     = Inr (APIFeatures_new (query_select ''-__v'' (Model_find (JObj []))) [])"
  using limitFields_projects_the_comma_separated_fields
          [of "APIFeatures_new (Model_find (JObj [])) [(''fields'', JStr ''name,price'')]" "''name,price''"]
        limitFields_projects_the_comma_separated_fields
          [of "APIFeatures_new (Model_find (JObj [])) []" "[]"]
  by (simp add: APIFeatures_new_def)

text \<open>
  The request \<^verbatim>\<open>?fields=\<close> has a fields string, and its projection is
  \<^verbatim>\<open>'-__v'\<close>, not the comma-separated parts of the string; the request
  \<^verbatim>\<open>?fields=-name\<close> projects every field except \<^verbatim>\<open>name\<close>.
\<close>
theorem limitFields_empty_fields_counterexample:
  "APIFeatures_limitFields (APIFeatures_new (Model_find (JObj [])) [(''fields'', JStr [])])
     = Inr (APIFeatures_new (query_select ''-__v'' (Model_find (JObj []))) [(''fields'', JStr [])])
   \<and> APIFeatures_limitFields (APIFeatures_new (Model_find (JObj [])) [(''fields'', JStr [])])
     \<noteq> Inr (APIFeatures_new (query_select (join '' '' (split CHR '','' [])) (Model_find (JObj [])))
              [(''fields'', JStr [])])
   \<and> APIFeatures_limitFields (APIFeatures_new (Model_find (JObj [])) [(''fields'', JStr ''-name'')])
     = Inr (APIFeatures_new (query_select ''-name'' (Model_find (JObj []))) [(''fields'', JStr ''-name'')])
   \<and> projection_of ''-name'' = [(''name'', Exclude)]"
  by (simp add: APIFeatures_limitFields_def APIFeatures_new_def query_select_def Model_find_def
        projection_of_def signed_fields_def)

lemma filter_keeps_request: "APIFeatures_filter b = Inr b' \<Longrightarrow> expressQueryString b' = expressQueryString b"
  by (auto simp: APIFeatures_filter_def Let_def split: sum.splits)

lemma sort_keeps_request: "APIFeatures_sort b = Inr b' \<Longrightarrow> expressQueryString b' = expressQueryString b"
  by (auto simp: APIFeatures_sort_def Let_def split: if_splits option.splits jsval.splits)

lemma limitFields_keeps_request:
  "APIFeatures_limitFields b = Inr b' \<Longrightarrow> expressQueryString b' = expressQueryString b"
  by (auto simp: APIFeatures_limitFields_def Let_def split: if_splits option.splits jsval.splits)

lemma paginate_keeps_request:
  "APIFeatures_paginate b = Inr b' \<Longrightarrow> expressQueryString b' = expressQueryString b"
  by (auto simp: paginate_eq split: sum.splits)

lemma then_call_Inr: "then_call r f = Inr y \<Longrightarrow> \<exists>x. r = Inr x \<and> f x = Inr y"
  by (cases r) (auto simp: then_call_def)

lemma features_keeps_request:
  assumes "features q r = Inr b" shows "expressQueryString b = r"
proof -
  from assms obtain b1 b2 b3 where
    "APIFeatures_filter (APIFeatures_new q r) = Inr b1" "APIFeatures_sort b1 = Inr b2"
    "APIFeatures_limitFields b2 = Inr b3" "APIFeatures_paginate b3 = Inr b"
    unfolding features_def by (blast dest: then_call_Inr)
  then show ?thesis
    by (metis filter_keeps_request sort_keeps_request limitFields_keeps_request
          paginate_keeps_request APIFeatures.select_convs(2) APIFeatures_new_def)
qed

text \<open>
  C9.  A chain that returns leaves the request as it was given, so a second fresh
  builder on the same base query and the same request returns the same builder state,
  hence the same query descriptor.
\<close>
theorem second_builder_yields_the_same_descriptor:
  assumes "features q r = Inr b1" and "features q (expressQueryString b1) = res"
  shows "expressQueryString b1 = r \<and> res = Inr b1"
  using assms features_keeps_request by auto

theorem second_builder_witness:
  "features (Model_find (JObj [])) [(''duration'', JObj [(''gte'', JStr ''5'')])]
     = Inr (APIFeatures_new
         \<lparr>conditions = [JObj [], JObj [(''duration'', JObj [(''$gte'', JStr ''5'')])]],
           sort_calls = [''-createdAt _id''], select_calls = [''-__v''],
           skip_opt = Some (Fin 0), limit_opt = Some (Fin 100)\<rparr>
         [(''duration'', JObj [(''gte'', JStr ''5'')])])
   \<and> features (Model_find (JObj []))
       (expressQueryString (APIFeatures_new
         \<lparr>conditions = [JObj [], JObj [(''duration'', JObj [(''$gte'', JStr ''5'')])]],
           sort_calls = [''-createdAt _id''], select_calls = [''-__v''],
           skip_opt = Some (Fin 0), limit_opt = Some (Fin 100)\<rparr>
         [(''duration'', JObj [(''gte'', JStr ''5'')])]))
     = Inr (APIFeatures_new
         \<lparr>conditions = [JObj [], JObj [(''duration'', JObj [(''$gte'', JStr ''5'')])]],
           sort_calls = [''-createdAt _id''], select_calls = [''-__v''],
           skip_opt = Some (Fin 0), limit_opt = Some (Fin 100)\<rparr>
         [(''duration'', JObj [(''gte'', JStr ''5'')])])"
proof -
  have run: "features (Model_find (JObj [])) [(''duration'', JObj [(''gte'', JStr ''5'')])]
     = Inr (APIFeatures_new
         \<lparr>conditions = [JObj [], JObj [(''duration'', JObj [(''$gte'', JStr ''5'')])]],
           sort_calls = [''-createdAt _id''], select_calls = [''-__v''],
           skip_opt = Some (Fin 0), limit_opt = Some (Fin 100)\<rparr>
         [(''duration'', JObj [(''gte'', JStr ''5'')])])"
    by (simp add: builder_defs text_defs query_defs paginate_eq number_defs Model_find_def)
  from second_builder_yields_the_same_descriptor [OF run refl] run show ?thesis
    by simp
qed

lemma filter_shape:
  "\<exists>g. \<forall>q. APIFeatures_filter \<lparr>mongooseQuery = q, expressQueryString = r\<rparr>
     = (case g of Inl e \<Rightarrow> Inl e
        | Inr c \<Rightarrow> Inr \<lparr>mongooseQuery = q\<lparr>conditions := conditions q @ [c]\<rparr>,
                        expressQueryString = r\<rparr>)"
  by (rule exI [of _ "JSON_parse (replace (stringify (JObj (fold delete_prop excludedFields r))))"])
     (auto simp: APIFeatures_filter_def query_find_def split: sum.splits)

lemma sort_shape:
  "\<exists>g. \<forall>q. APIFeatures_sort \<lparr>mongooseQuery = q, expressQueryString = r\<rparr>
     = (case g of Inl e \<Rightarrow> Inl e
        | Inr s \<Rightarrow> Inr \<lparr>mongooseQuery = q\<lparr>sort_calls := sort_calls q @ [s]\<rparr>,
                        expressQueryString = r\<rparr>)"
  by (rule exI [of _ "if truthy (map_of r ''sort'') then
          (case map_of r ''sort'' of
             Some (JStr s) \<Rightarrow> Inr (join '' '' (split CHR '','' s))
           | _ \<Rightarrow> Inl (TypeError ''this.expressQueryString.sort.split is not a function''))
        else Inr ''-createdAt _id''"])
     (auto simp: APIFeatures_sort_def query_sort_def split: option.splits jsval.splits)

lemma limitFields_shape:
  "\<exists>g. \<forall>q. APIFeatures_limitFields \<lparr>mongooseQuery = q, expressQueryString = r\<rparr>
     = (case g of Inl e \<Rightarrow> Inl e
        | Inr s \<Rightarrow> Inr \<lparr>mongooseQuery = q\<lparr>select_calls := select_calls q @ [s]\<rparr>,
                        expressQueryString = r\<rparr>)"
  by (rule exI [of _ "if truthy (map_of r ''fields'') then
          (case map_of r ''fields'' of
             Some (JStr s) \<Rightarrow> Inr (join '' '' (split CHR '','' s))
           | _ \<Rightarrow> Inl (TypeError ''this.expressQueryString.fields.split is not a function''))
        else Inr ''-__v''"])
     (auto simp: APIFeatures_limitFields_def query_select_def split: option.splits jsval.splits)

lemma paginate_shape:
  "\<exists>g. \<forall>q. APIFeatures_paginate \<lparr>mongooseQuery = q, expressQueryString = r\<rparr>
     = (case g of Inl e \<Rightarrow> Inl e
        | Inr (s, l) \<Rightarrow> Inr \<lparr>mongooseQuery = q\<lparr>skip_opt := Some s, limit_opt := Some l\<rparr>,
                             expressQueryString = r\<rparr>)"
  by (rule exI [of _ "case to_number (map_of r ''page'') of
          Inl e \<Rightarrow> Inl e
        | Inr p \<Rightarrow>
            (case to_number (map_of r ''limit'') of
               Inl e \<Rightarrow> Inl e
             | Inr l \<Rightarrow> Inr (jmul (jsub (js_or (jmul p (Fin 1)) (Fin 1)) (Fin 1))
                                (js_or (jmul l (Fin 1)) (Fin 100)),
                              js_or (jmul l (Fin 1)) (Fin 100)))"])
     (auto simp: paginate_eq split: sum.splits)

text \<open>
  C5.  For every base query and request, each of the six orders of \<^verbatim>\<open>filter\<close>,
  \<^verbatim>\<open>sort\<close> and \<^verbatim>\<open>limitFields\<close>, followed by \<^verbatim>\<open>paginate\<close>, has the outcome
  of the fixed order: either both throw or both return the same descriptor.
\<close>
theorem any_order_with_paginate_last:
  assumes "ms \<in> set orders"
  shows "outcome (chain (ms @ [APIFeatures_paginate]) (APIFeatures_new q r)) = outcome (features q r)"
proof -
  have ms: "ms = [APIFeatures_filter, APIFeatures_sort, APIFeatures_limitFields]
    \<or> ms = [APIFeatures_filter, APIFeatures_limitFields, APIFeatures_sort]
    \<or> ms = [APIFeatures_sort, APIFeatures_filter, APIFeatures_limitFields]
    \<or> ms = [APIFeatures_sort, APIFeatures_limitFields, APIFeatures_filter]
    \<or> ms = [APIFeatures_limitFields, APIFeatures_filter, APIFeatures_sort]
    \<or> ms = [APIFeatures_limitFields, APIFeatures_sort, APIFeatures_filter]"
    using assms by (auto simp: orders_def)
  obtain gF gS gL gP where
    F: "\<And>q. APIFeatures_filter \<lparr>mongooseQuery = q, expressQueryString = r\<rparr>
     = (case gF of Inl e \<Rightarrow> Inl e
        | Inr c \<Rightarrow> Inr \<lparr>mongooseQuery = q\<lparr>conditions := conditions q @ [c]\<rparr>,
                        expressQueryString = r\<rparr>)"
    and S: "\<And>q. APIFeatures_sort \<lparr>mongooseQuery = q, expressQueryString = r\<rparr>
     = (case gS of Inl e \<Rightarrow> Inl e
        | Inr s \<Rightarrow> Inr \<lparr>mongooseQuery = q\<lparr>sort_calls := sort_calls q @ [s]\<rparr>,
                        expressQueryString = r\<rparr>)"
    and L: "\<And>q. APIFeatures_limitFields \<lparr>mongooseQuery = q, expressQueryString = r\<rparr>
     = (case gL of Inl e \<Rightarrow> Inl e
        | Inr s \<Rightarrow> Inr \<lparr>mongooseQuery = q\<lparr>select_calls := select_calls q @ [s]\<rparr>,
                        expressQueryString = r\<rparr>)"
    and P: "\<And>q. APIFeatures_paginate \<lparr>mongooseQuery = q, expressQueryString = r\<rparr>
     = (case gP of Inl e \<Rightarrow> Inl e
        | Inr (s, l) \<Rightarrow> Inr \<lparr>mongooseQuery = q\<lparr>skip_opt := Some s, limit_opt := Some l\<rparr>,
                             expressQueryString = r\<rparr>)"
    using filter_shape [of r] sort_shape [of r] limitFields_shape [of r] paginate_shape [of r]
    by auto
  show ?thesis
    by (insert ms, cases gF; cases gS; cases gL; cases gP)
       (auto simp: chain_def features_def then_call_def outcome_def APIFeatures_new_def F S L P)
qed

theorem any_order_witness:
  "[APIFeatures_limitFields, APIFeatures_sort, APIFeatures_filter] \<in> set orders
   \<and> outcome (chain [APIFeatures_limitFields, APIFeatures_sort, APIFeatures_filter, APIFeatures_paginate]
        (APIFeatures_new (Model_find (JObj [])) [(''price'', JObj [(''lt'', JStr ''9'')]), (''fields'', JStr ''name'')]))
     = Some (APIFeatures_new
         \<lparr>conditions = [JObj [], JObj [(''price'', JObj [(''$lt'', JStr ''9'')])]],
           sort_calls = [''-createdAt _id''], select_calls = [''name''],
           skip_opt = Some (Fin 0), limit_opt = Some (Fin 100)\<rparr>
         [(''price'', JObj [(''lt'', JStr ''9'')]), (''fields'', JStr ''name'')])"
proof -
  have order: "[APIFeatures_limitFields, APIFeatures_sort, APIFeatures_filter] \<in> set orders"
    by (simp add: orders_def)
  have run: "features (Model_find (JObj [])) [(''price'', JObj [(''lt'', JStr ''9'')]), (''fields'', JStr ''name'')]
     = Inr (APIFeatures_new
         \<lparr>conditions = [JObj [], JObj [(''price'', JObj [(''$lt'', JStr ''9'')])]],
           sort_calls = [''-createdAt _id''], select_calls = [''name''],
           skip_opt = Some (Fin 0), limit_opt = Some (Fin 100)\<rparr>
         [(''price'', JObj [(''lt'', JStr ''9'')]), (''fields'', JStr ''name'')])"
    by (simp add: builder_defs text_defs query_defs paginate_eq number_defs Model_find_def)
  from any_order_with_paginate_last [OF order, of "Model_find (JObj [])"
      "[(''price'', JObj [(''lt'', JStr ''9'')]), (''fields'', JStr ''name'')]"] order
  show ?thesis
    by (simp add: run outcome_def)
qed

section \<open>The filter round trip\<close>

lemma esc_char_plain:
  assumes "(32::nat) \<le> of_char c" "c \<noteq> CHR 0x22" "c \<noteq> CHR 0x5C"
  shows "esc_char c = [c]"
proof -
  have "c \<noteq> CHR 0x08" "c \<noteq> CHR 0x0C" "c \<noteq> CHR 0x0A" "c \<noteq> CHR 0x0D" "c \<noteq> CHR 0x09"
    using assms(1) by auto
  with assms show ?thesis by (simp add: esc_char_def)
qed

lemma word_char_code: "is_word_char c \<Longrightarrow> (48::nat) \<le> of_char c \<and> of_char c \<noteq> (92::nat)"
  unfolding is_word_char_def Let_def by linarith

lemma word_char_plain: "is_word_char c \<Longrightarrow> esc_char c = [c]"
  using word_char_code [of c] by (intro esc_char_plain) auto

lemma control_not_word: "of_char c < (32::nat) \<Longrightarrow> \<not> is_word_char c"
  unfolding is_word_char_def Let_def by linarith

lemma quote_backslash_not_word: "\<not> is_word_char (CHR 0x22)" "\<not> is_word_char (CHR 0x5C)"
  by (simp_all add: is_word_char_def)

lemma esc_char_cases:
  obtains (plain) "esc_char c = [c]" "(32::nat) \<le> of_char c" "c \<noteq> CHR 0x22" "c \<noteq> CHR 0x5C"
  | (short) x where "esc_char c = [CHR 0x5C, x]" "unescape x = Some c" "\<not> is_word_char c"
      "x \<noteq> CHR ''g''" "x \<noteq> CHR ''l''" "x \<noteq> CHR ''u''"
  | (long) "esc_char c = [CHR 0x5C, CHR ''u'', CHR ''0'', CHR ''0'',
         hex_digit (of_char c div 16), hex_digit (of_char c mod 16)]"
      "of_char c < (32::nat)" "\<not> is_word_char c"
proof -
  consider "c = CHR 0x22" | "c = CHR 0x5C" | "c = CHR 0x08" | "c = CHR 0x0C" | "c = CHR 0x0A"
    | "c = CHR 0x0D" | "c = CHR 0x09"
    | "c \<noteq> CHR 0x22" "c \<noteq> CHR 0x5C" "c \<noteq> CHR 0x08" "c \<noteq> CHR 0x0C" "c \<noteq> CHR 0x0A"
      "c \<noteq> CHR 0x0D" "c \<noteq> CHR 0x09"
    by blast
  then show thesis
  proof cases
    case 8
    show thesis
    proof (cases "(of_char c :: nat) < 32")
      case True
      with 8 show thesis
        by (intro long) (simp_all add: esc_char_def control_not_word)
    next
      case False
      with 8 show thesis
        by (intro plain) (simp_all add: esc_char_def)
    qed
  qed (rule short [of _], simp add: esc_char_def, simp add: unescape_def, simp add: is_word_char_def, simp_all)+
qed

lemma find_SomeD: "find P xs = Some w \<Longrightarrow> w \<in> set xs \<and> P w"
  by (induction xs) (auto split: if_splits)

lemma match_here_words:
  assumes "match_here prev cs = Some w"
  shows "w \<in> set [''gte'', ''gt'', ''lte'', ''lt'']" and "take (length w) cs = w"
proof -
  have "find (\<lambda>w. take (length w) cs = w \<and> word_boundary True (drop (length w) cs))
          [''gte'', ''gt'', ''lte'', ''lt''] = Some w"
  proof (cases "word_boundary prev cs")
    case True
    with assms show ?thesis unfolding match_here_def by (simp only: if_True)
  next
    case False
    with assms show ?thesis unfolding match_here_def by (simp only: if_False option.distinct)
  qed
  from find_SomeD [OF this]
  show "w \<in> set [''gte'', ''gt'', ''lte'', ''lt'']" and "take (length w) cs = w"
    by blast+
qed

lemma words_are_word_chars:
  "w \<in> set [''gte'', ''gt'', ''lte'', ''lt''] \<Longrightarrow> \<forall>x \<in> set w. is_word_char x"
  by (auto simp: is_word_char_def)

lemma no_match: "c \<noteq> CHR ''g'' \<Longrightarrow> c \<noteq> CHR ''l'' \<Longrightarrow> match_here prev (c # t) = None"
  by (simp add: match_here_def)

lemma small_nat_cases:
  "(k::nat) < 16 \<Longrightarrow> k = 0 \<or> k = 1 \<or> k = 2 \<or> k = 3 \<or> k = 4 \<or> k = 5 \<or> k = 6 \<or> k = 7
     \<or> k = 8 \<or> k = 9 \<or> k = 10 \<or> k = 11 \<or> k = 12 \<or> k = 13 \<or> k = 14 \<or> k = 15"
  by presburger

lemma hex_digit_props:
  assumes "k < 16"
  shows "hex_digit k \<noteq> CHR ''g''" "hex_digit k \<noteq> CHR ''l''" "is_word_char (hex_digit k)"
    "is_hex_digit (hex_digit k)" "digit_of (hex_digit k) = k"
  using small_nat_cases [OF assms]
  by (auto simp: hex_digit_def is_word_char_def is_hex_digit_def is_digit_def digit_of_def)

lemma escape_Cons: "escape (c # s) = esc_char c @ escape s"
  by (simp add: escape_def)

lemma escape_append: "escape (s @ t) = escape s @ escape t"
  by (simp add: escape_def)

lemma escape_word: "\<forall>x \<in> set w. is_word_char x \<Longrightarrow> escape w = w"
  by (induction w) (simp_all add: escape_def word_char_plain)

lemma replace_esc_char:
  assumes "esc_char c = [c] \<Longrightarrow> match_here prev (c # t) = None"
  shows "replace_from prev (esc_char c @ t) = esc_char c @ replace_from (is_word_char (last (esc_char c))) t"
proof (cases c rule: esc_char_cases)
  case plain
  with assms show ?thesis by simp
next
  case (short x)
  then show ?thesis by (simp add: no_match)
next
  case long
  have "of_char c div 16 < (16::nat)" "of_char c mod 16 < (16::nat)"
    using long(2) by simp_all
  then show ?thesis
    by (simp add: long(1) no_match hex_digit_props)
qed

lemma esc_char_head:
  "\<exists>y ys. esc_char c = y # ys \<and> is_word_char y = is_word_char c
     \<and> (is_word_char c \<longrightarrow> ys = [] \<and> y = c)"
proof (cases c rule: esc_char_cases)
  case plain
  then show ?thesis by simp
next
  case (short x)
  then show ?thesis by (simp add: quote_backslash_not_word)
next
  case long
  then show ?thesis by (simp add: quote_backslash_not_word)
qed

lemma take_escape_word:
  "\<forall>x \<in> set w. is_word_char x \<Longrightarrow>
     (take (length w) (escape s @ CHR 0x22 # rest) = w) = (take (length w) s = w)"
proof (induction w arbitrary: s)
  case Nil
  then show ?case by simp
next
  case (Cons x w)
  show ?case
  proof (cases s)
    case Nil
    with Cons.prems show ?thesis by (auto simp: escape_def quote_backslash_not_word)
  next
    case (Cons c s')
    obtain y ys where y: "esc_char c = y # ys" "is_word_char y = is_word_char c"
      "is_word_char c \<longrightarrow> ys = [] \<and> y = c"
      using esc_char_head [of c] by blast
    show ?thesis
    proof (cases "is_word_char c")
      case True
      with Cons.IH [of s'] Cons.prems Cons y show ?thesis
        by (simp add: escape_Cons)
    next
      case False
      with y Cons.prems have "y \<noteq> x" "c \<noteq> x" by auto
      with Cons y show ?thesis by (simp add: escape_Cons)
    qed
  qed
qed

lemma word_boundary_escape:
  "word_boundary prev (escape s @ CHR 0x22 # rest) = word_boundary prev s"
proof (cases s)
  case Nil
  then show ?thesis by (simp add: word_boundary_def escape_def quote_backslash_not_word)
next
  case (Cons c s')
  obtain y ys where "esc_char c = y # ys" "is_word_char y = is_word_char c"
    using esc_char_head [of c] by blast
  with Cons show ?thesis by (simp add: word_boundary_def escape_Cons)
qed

lemma escape_take_word:
  assumes "\<forall>x \<in> set w. is_word_char x" and "take (length w) s = w"
  shows "escape s = w @ escape (drop (length w) s)"
proof -
  have "s = w @ drop (length w) s"
    using assms(2) by (metis append_take_drop_id)
  then have "escape s = escape w @ escape (drop (length w) s)"
    by (metis escape_append)
  with assms(1) show ?thesis by (simp add: escape_word)
qed

lemma match_here_escape:
  "match_here prev (escape s @ CHR 0x22 # rest) = match_here prev s"
proof -
  have "(take (length w) (escape s @ CHR 0x22 # rest) = w
          \<and> word_boundary True (drop (length w) (escape s @ CHR 0x22 # rest)))
      = (take (length w) s = w \<and> word_boundary True (drop (length w) s))"
    if "w \<in> set [''gte'', ''gt'', ''lte'', ''lt'']" for w
  proof (cases "take (length w) s = w")
    case True
    have word: "\<forall>x \<in> set w. is_word_char x"
      using that by (rule words_are_word_chars)
    from escape_take_word [OF word True]
    have "drop (length w) (escape s @ CHR 0x22 # rest) = escape (drop (length w) s) @ CHR 0x22 # rest"
      by simp
    with True take_escape_word [OF word, of s rest] show ?thesis
      by (simp only: word_boundary_escape)
  next
    case False
    with take_escape_word [OF words_are_word_chars [OF that], of s rest] show ?thesis by simp
  qed
  then have "find (\<lambda>w. take (length w) (escape s @ CHR 0x22 # rest) = w
          \<and> word_boundary True (drop (length w) (escape s @ CHR 0x22 # rest)))
        [''gte'', ''gt'', ''lte'', ''lt'']
      = find (\<lambda>w. take (length w) s = w \<and> word_boundary True (drop (length w) s))
        [''gte'', ''gt'', ''lte'', ''lt'']"
    by (intro find_cong) auto
  then show ?thesis
    unfolding match_here_def by (simp only: word_boundary_escape)
qed

lemma replace_from_match:
  assumes "match_here prev str = Some w"
  shows "replace_from prev str = (''$'' @ w) @ replace_from True (drop (length w) str)"
proof (cases str)
  case Nil
  with assms match_here_length [of prev str w] show ?thesis by simp
next
  case (Cons x t)
  have "replace_from prev (x # t) = (''$'' @ w) @ replace_from True (drop (length w) (x # t))"
    using assms unfolding Cons by (simp only: replace_from.simps option.case)
  then show ?thesis unfolding Cons .
qed

lemma escape_dollar: "escape ''$'' = ''$''"
  by (simp add: escape_def esc_char_def)

lemma replace_escape:
  "replace_from prev (escape s @ CHR 0x22 # rest)
     = escape (rewrite_from prev s) @ CHR 0x22 # replace_from False rest"
proof (induction prev s rule: rewrite_from.induct)
  case (1 prev)
  show ?case by (simp add: escape_def no_match quote_backslash_not_word)
next
  case (2 prev c cs)
  show ?case
  proof (cases "match_here prev (c # cs)")
    case None
    then have "match_here prev (escape (c # cs) @ CHR 0x22 # rest) = None"
      by (simp only: match_here_escape)
    then have "esc_char c = [c] \<Longrightarrow> match_here prev (c # (escape cs @ CHR 0x22 # rest)) = None"
      by (simp add: escape_Cons)
    from replace_esc_char [of c prev "escape cs @ CHR 0x22 # rest", OF this]
    have "replace_from prev (escape (c # cs) @ CHR 0x22 # rest)
        = esc_char c @ replace_from (is_word_char (last (esc_char c))) (escape cs @ CHR 0x22 # rest)"
      by (simp only: escape_Cons append_assoc)
    also have "\<dots> = esc_char c @ escape (rewrite_from (is_word_char (last (esc_char c))) cs)
        @ CHR 0x22 # replace_from False rest"
      using "2.IH"(1) [OF None] by (simp only:)
    also have "\<dots> = escape (c # rewrite_from (is_word_char (last (esc_char c))) cs)
        @ CHR 0x22 # replace_from False rest"
      by (simp only: escape_Cons append_assoc)
    also have "c # rewrite_from (is_word_char (last (esc_char c))) cs = rewrite_from prev (c # cs)"
      using None by simp
    finally show ?thesis .
  next
    case (Some w)
    from match_here_words [OF Some] have w: "w \<in> set [''gte'', ''gt'', ''lte'', ''lt'']"
      and take: "take (length w) (c # cs) = w" by blast+
    have word: "\<forall>x \<in> set w. is_word_char x" using w by (rule words_are_word_chars)
    have esc: "escape (c # cs) = w @ escape (drop (length w) (c # cs))"
      using word take by (rule escape_take_word)
    have nonempty: "w \<noteq> []" using w by auto
    have m: "match_here prev (escape (c # cs) @ CHR 0x22 # rest) = Some w"
      using Some by (simp only: match_here_escape)
    have "replace_from prev (escape (c # cs) @ CHR 0x22 # rest)
        = (''$'' @ w) @ replace_from True (drop (length w) (escape (c # cs) @ CHR 0x22 # rest))"
      using m by (rule replace_from_match)
    also have "drop (length w) (escape (c # cs) @ CHR 0x22 # rest)
        = escape (drop (length w) (c # cs)) @ CHR 0x22 # rest"
      by (subst esc) simp
    also have "replace_from True \<dots>
        = escape (rewrite_from True (drop (length w) (c # cs))) @ CHR 0x22 # replace_from False rest"
      using "2.IH"(2) [OF Some] .
    also have "(''$'' @ w) @ escape (rewrite_from True (drop (length w) (c # cs)))
          @ CHR 0x22 # replace_from False rest
        = escape ((''$'' @ w) @ rewrite_from True (drop (length w) (c # cs)))
          @ CHR 0x22 # replace_from False rest"
      using escape_word [OF word] by (simp only: escape_dollar escape_append append_assoc)
    also have "(''$'' @ w) @ rewrite_from True (drop (length w) (c # cs)) = rewrite_from prev (c # cs)"
      using Some by simp
    finally show ?thesis .
  qed
qed

lemma replace_quote:
  "replace_from prev (quote s @ rest) = quote (rewrite_from False s) @ replace_from False rest"
  by (simp add: quote_def no_match quote_backslash_not_word replace_escape)

lemma replace_join:
  assumes "list_all2 (\<lambda>t t'. \<forall>prev rest. replace_from prev (t @ rest) = t' @ replace_from False rest) ts ts'"
    and "c \<noteq> CHR ''g''" "c \<noteq> CHR ''l''" "\<not> is_word_char c"
  shows "replace_from prev (join '','' ts @ c # rest) = join '','' ts' @ c # replace_from False rest"
  using assms(1)
proof (induction ts ts' arbitrary: prev rule: list_all2_induct)
  case Nil
  with assms(2-) show ?case by (simp add: no_match)
next
  case (Cons t ts t' ts')
  show ?case
  proof (cases ts)
    case Nil
    with Cons.hyps assms(2-) show ?thesis by (simp add: no_match)
  next
    case (Cons u us)
    then obtain u' us' where ts': "ts' = u' # us'"
      using Cons.hyps(2) by (cases ts') auto
    have comma: "\<not> is_word_char (CHR '','')" by (simp add: is_word_char_def)
    from Cons.IH [of False] Cons.hyps(1) show ?thesis
      unfolding Cons ts' by (simp add: no_match comma)
  qed
qed

lemma replace_stringify:
  "replace_from prev (stringify v @ rest) = stringify (rewrite v) @ replace_from False rest"
proof (induction v arbitrary: prev rest)
  case (JStr s)
  show ?case by (simp add: replace_quote)
next
  case (JArr vs)
  have "list_all2 (\<lambda>t t'. \<forall>prev rest. replace_from prev (t @ rest) = t' @ replace_from False rest)
          (map stringify vs) (map stringify (map rewrite vs))"
    using JArr.IH by (simp add: list_all2_conv_all_nth)
  from replace_join [OF this, of "CHR '']''"] show ?case
    by (simp add: no_match is_word_char_def)
next
  case (JObj ms)
  have colon: "\<not> is_word_char (CHR '':'')" by (simp add: is_word_char_def)
  have "list_all2 (\<lambda>t t'. \<forall>prev rest. replace_from prev (t @ rest) = t' @ replace_from False rest)
          (map (\<lambda>p. quote (fst p) @ '':'' @ stringify (snd p)) ms)
          (map (\<lambda>p. quote (fst p) @ '':'' @ stringify (snd p))
             (map (\<lambda>p. (rewrite_from False (fst p), rewrite (snd p))) ms))"
  proof -
    have "replace_from prev (quote (fst p) @ '':'' @ stringify (snd p) @ rest)
        = quote (rewrite_from False (fst p)) @ '':'' @ stringify (rewrite (snd p)) @ replace_from False rest"
      if "p \<in> set ms" for p prev rest
    proof -
      have "snd p \<in> Basic_BNFs.snds p" by (cases p) simp
      from JObj.IH [OF that this] show ?thesis
        by (simp add: replace_quote no_match colon)
    qed
    then show ?thesis by (simp add: list_all2_conv_all_nth)
  qed
  from replace_join [OF this, of "CHR ''}''"] show ?case
    by (simp add: no_match is_word_char_def)
qed

lemma replace_stringify_whole: "replace (stringify v) = stringify (rewrite v)"
  using replace_stringify [of False v "[]"] by (simp add: replace_def)

lemma lex_string_esc_char:
  "lex_string (esc_char c @ t) = cons_char c (lex_string t)"
proof (cases c rule: esc_char_cases)
  case plain
  then show ?thesis by simp
next
  case (short x)
  then show ?thesis by simp
next
  case long
  have lt: "of_char c div 16 < (16::nat)" "of_char c mod 16 < (16::nat)"
    using long(2) by simp_all
  have "radix_value 16 [CHR ''0'', CHR ''0'', hex_digit (of_char c div 16), hex_digit (of_char c mod 16)]
      = of_char c"
  proof -
    have "digit_of (CHR ''0'') = 0" by (simp add: digit_of_def)
    then show ?thesis
      using long(2)
      by (simp add: radix_value_def hex_digit_props(5) [OF lt(1)] hex_digit_props(5) [OF lt(2)])
  qed
  moreover have "(of_char c :: nat) < 256" using long(2) by simp
  moreover have "is_hex_digit (CHR ''0'')" by (simp add: is_hex_digit_def is_digit_def)
  ultimately show ?thesis
    by (simp add: long(1) hex_digit_props(4) [OF lt(1)] hex_digit_props(4) [OF lt(2)])
qed

lemma lex_string_escape: "lex_string (escape s @ CHR 0x22 # rest) = Some (s, rest)"
  by (induction s) (simp_all add: escape_def lex_string_esc_char cons_char_def)

lemma lex_quote: "lex (quote s @ rest) = map_option ((#) (TString s)) (lex rest)"
  by (simp add: quote_def lex_string_escape)

lemma lex_punctuation:
  assumes "punctuation c = Some t"
  shows "lex (c # rest) = map_option ((#) t) (lex rest)"
proof -
  have "c \<noteq> CHR 0x22" "\<not> is_json_ws c"
    using assms by (auto simp: punctuation_def is_json_ws_def split: if_splits)
  with assms show ?thesis by simp
qed

lemma lex_chars:
  "lex (CHR ''['' # r) = map_option ((#) TLBrack) (lex r)"
  "lex (CHR '']'' # r) = map_option ((#) TRBrack) (lex r)"
  "lex (CHR ''{'' # r) = map_option ((#) TLBrace) (lex r)"
  "lex (CHR ''}'' # r) = map_option ((#) TRBrace) (lex r)"
  "lex (CHR '','' # r) = map_option ((#) TComma) (lex r)"
  "lex (CHR '':'' # r) = map_option ((#) TColon) (lex r)"
  by (simp_all add: punctuation_def is_json_ws_def)

lemma lex_join:
  assumes "list_all2 (\<lambda>t ts. \<forall>rest. lex (t @ rest) = map_option ((@) ts) (lex rest)) xs tss"
    and "punctuation c = Some t"
  shows "lex (join '','' xs @ c # rest) = map_option ((@) (join [TComma] tss @ [t])) (lex rest)"
  using assms(1)
proof (induction xs tss rule: list_all2_induct)
  case Nil
  show ?case by (cases "lex rest") (simp_all add: lex_punctuation [OF assms(2)] del: lex.simps)
next
  case (Cons x xs ts tss)
  have comma: "punctuation (CHR '','') = Some TComma" by (simp add: punctuation_def)
  show ?case
  proof (cases xs)
    case Nil
    with Cons.hyps show ?thesis
      by (cases "lex rest") (simp_all add: lex_punctuation [OF assms(2)] del: lex.simps)
  next
    case (Cons u us)
    then obtain us' uss' where tss: "tss = us' # uss'"
      using Cons.hyps(2) by (cases tss) auto
    from Cons.IH Cons.hyps(1) show ?thesis
      unfolding Cons tss by (cases "lex rest") (simp_all add: lex_chars del: lex.simps)
  qed
qed

lemma lex_stringify:
  "lex (stringify v @ rest) = map_option ((@) (tokens_of v)) (lex rest)"
proof (induction v arbitrary: rest)
  case (JStr s)
  show ?case by (cases "lex rest") (simp_all add: lex_quote del: lex.simps)
next
  case (JArr vs)
  have "list_all2 (\<lambda>t ts. \<forall>rest. lex (t @ rest) = map_option ((@) ts) (lex rest))
          (map stringify vs) (map tokens_of vs)"
    using JArr.IH by (simp add: list_all2_conv_all_nth)
  from lex_join [OF this, of "CHR '']''" TRBrack rest] show ?case
    by (cases "lex rest") (simp_all add: lex_chars punctuation_def del: lex.simps)
next
  case (JObj ms)
  have colon: "punctuation (CHR '':'') = Some TColon" by (simp add: punctuation_def)
  have "list_all2 (\<lambda>t ts. \<forall>rest. lex (t @ rest) = map_option ((@) ts) (lex rest))
          (map (\<lambda>p. quote (fst p) @ '':'' @ stringify (snd p)) ms)
          (map (\<lambda>p. TString (fst p) # TColon # tokens_of (snd p)) ms)"
  proof -
    have "lex (quote (fst p) @ '':'' @ stringify (snd p) @ rest)
        = map_option ((@) (TString (fst p) # TColon # tokens_of (snd p))) (lex rest)"
      if "p \<in> set ms" for p rest
    proof -
      have "snd p \<in> Basic_BNFs.snds p" by (cases p) simp
      from JObj.IH [OF that this, of rest] show ?thesis
        by (cases "lex rest") (simp_all add: lex_quote lex_chars del: lex.simps)
    qed
    then show ?thesis by (simp add: list_all2_conv_all_nth)
  qed
  from lex_join [OF this, of "CHR ''}''" TRBrace rest] show ?case
    by (cases "lex rest") (simp_all add: lex_chars punctuation_def del: lex.simps)
qed

lemma lex_stringify_whole: "lex (stringify v) = Some (tokens_of v)"
  using lex_stringify [of v "[]"] by simp

lemma parse_elements:
  assumes "\<And>v m st ts. v \<in> set vs \<Longrightarrow> m = PValue \<or> m = PArrStart \<Longrightarrow>
      parse_tokens m st (tokens_of v @ ts) = continue (after_value (normalise v) st) ts"
    and "vs \<noteq> []" and "m = PValue \<or> m = PArrStart"
  shows "parse_tokens m (ArrF acc # st) (join [TComma] (map tokens_of vs) @ TRBrack # ts)
     = continue (after_value (JArr (acc @ map normalise vs)) st) ts"
  using assms
proof (induction vs arbitrary: acc m)
  case Nil
  then show ?case by simp
next
  case (Cons v vs)
  have v: "parse_tokens m (ArrF acc # st) (tokens_of v @ rest)
      = parse_tokens PAfter (ArrF (acc @ [normalise v]) # st) rest" for rest
    using Cons.prems(1) [of v m "ArrF acc # st" rest] Cons.prems(3)
    by (simp add: continue_def)
  show ?case
  proof (cases vs)
    case Nil
    then show ?thesis
      by (simp add: v parse_step_def close_array_def continue_def)
  next
    case (Cons u us)
    have "parse_tokens PValue (ArrF (acc @ [normalise v]) # st)
            (join [TComma] (map tokens_of vs) @ TRBrack # ts)
        = continue (after_value (JArr ((acc @ [normalise v]) @ map normalise vs)) st) ts"
      using Cons.prems(1) Cons by (intro Cons.IH) auto
    then show ?thesis
      unfolding Cons by (simp add: v parse_step_def continue_def)
  qed
qed

lemma parse_members:
  assumes "\<And>p m st ts. p \<in> set ms \<Longrightarrow> m = PValue \<or> m = PArrStart \<Longrightarrow>
      parse_tokens m st (tokens_of (snd p) @ ts) = continue (after_value (normalise (snd p)) st) ts"
    and "ms \<noteq> []" and "m = PObjStart \<or> m = PKey"
  shows "parse_tokens m (ObjF acc # st)
           (join [TComma] (map (\<lambda>p. TString (fst p) # TColon # tokens_of (snd p)) ms) @ TRBrace # ts)
     = continue (after_value
         (JObj (foldl (\<lambda>acc p. set_prop acc (fst p) (normalise (snd p))) acc ms)) st) ts"
  using assms
proof (induction ms arbitrary: acc m)
  case Nil
  then show ?case by simp
next
  case (Cons p ms)
  have p: "parse_tokens m (ObjF acc # st) (TString (fst p) # TColon # tokens_of (snd p) @ rest)
      = parse_tokens PAfter (ObjF (set_prop acc (fst p) (normalise (snd p))) # st) rest" for rest
    using Cons.prems(1) [of p PValue "KeyF acc (fst p) # st" rest] Cons.prems(3)
    by (auto simp: continue_def parse_step_def start_key_def)
  show ?case
  proof (cases ms)
    case Nil
    then show ?thesis
      by (simp add: p continue_def del: parse_tokens.simps)
        (simp add: parse_step_def close_object_def)
  next
    case (Cons u us)
    have "parse_tokens PKey (ObjF (set_prop acc (fst p) (normalise (snd p))) # st)
            (join [TComma] (map (\<lambda>p. TString (fst p) # TColon # tokens_of (snd p)) ms) @ TRBrace # ts)
        = continue (after_value (JObj (foldl (\<lambda>acc p. set_prop acc (fst p) (normalise (snd p)))
            (set_prop acc (fst p) (normalise (snd p))) ms)) st) ts"
      using Cons.prems(1) Cons by (intro Cons.IH) auto
    then show ?thesis
      unfolding Cons by (simp add: p continue_def del: parse_tokens.simps)
        (simp add: parse_step_def)
  qed
qed

lemma parse_value:
  "m = PValue \<or> m = PArrStart \<Longrightarrow>
     parse_tokens m st (tokens_of v @ ts) = continue (after_value (normalise v) st) ts"
proof (induction v arbitrary: m st ts)
  case (JStr s)
  then show ?case by (auto simp: parse_step_def start_value_def continue_def)
next
  case (JArr vs)
  have start: "parse_tokens m st (TLBrack # rest) = parse_tokens PArrStart (ArrF [] # st) rest" for rest
    using JArr.prems by (auto simp: parse_step_def start_value_def continue_def)
  show ?case
  proof (cases "vs = []")
    case True
    then show ?thesis
      by (simp add: start parse_step_def close_array_def continue_def del: parse_tokens.simps)
        (simp add: parse_step_def close_array_def)
  next
    case False
    from parse_elements [of vs PArrStart "[]" st ts, OF JArr.IH False] show ?thesis
      by (simp add: start del: parse_tokens.simps)
  qed
next
  case (JObj ms)
  have start: "parse_tokens m st (TLBrace # rest) = parse_tokens PObjStart (ObjF [] # st) rest" for rest
    using JObj.prems by (auto simp: parse_step_def start_value_def continue_def)
  show ?case
  proof (cases "ms = []")
    case True
    then show ?thesis
      by (simp add: start parse_step_def close_object_def continue_def del: parse_tokens.simps)
        (simp add: parse_step_def close_object_def)
  next
    case False
    have "parse_tokens m st (tokens_of (snd p) @ ts) = continue (after_value (normalise (snd p)) st) ts"
      if "p \<in> set ms" "m = PValue \<or> m = PArrStart" for p m st ts
    proof -
      have "snd p \<in> Basic_BNFs.snds p" by (cases p) simp
      from JObj.IH [OF that(1) this that(2)] show ?thesis .
    qed
    from parse_members [of ms PObjStart "[]" st ts, OF this False] show ?thesis
      by (simp add: start del: parse_tokens.simps)
  qed
qed

lemma JSON_parse_stringify: "JSON_parse (stringify v) = Inr (normalise v)"
  using parse_value [of PValue "[]" v "[]"]
  by (simp add: JSON_parse_def lex_stringify_whole continue_def)

lemma rewrite_from_filter:
  "filter (\<lambda>x. x \<noteq> CHR ''$'') (rewrite_from prev s) = filter (\<lambda>x. x \<noteq> CHR ''$'') s"
proof (induction prev s rule: rewrite_from.induct)
  case (1 prev)
  show ?case by simp
next
  case (2 prev c cs)
  show ?case
  proof (cases "match_here prev (c # cs)")
    case None
    then have "rewrite_from prev (c # cs) = c # rewrite_from (is_word_char (last (esc_char c))) cs"
      by simp
    then show ?thesis
      by (simp only: filter.simps "2.IH"(1) [OF None])
  next
    case (Some w)
    have "c # cs = w @ drop (length w) (c # cs)"
      using match_here_words(2) [OF Some] by (metis append_take_drop_id)
    then have "filter (\<lambda>x. x \<noteq> CHR ''$'') (c # cs)
        = filter (\<lambda>x. x \<noteq> CHR ''$'') w @ filter (\<lambda>x. x \<noteq> CHR ''$'') (drop (length w) (c # cs))"
      by (metis filter_append)
    with "2.IH"(2) [OF Some] Some show ?thesis by simp
  qed
qed

lemma rewrite_from_length: "length s \<le> length (rewrite_from prev s)"
proof (induction prev s rule: rewrite_from.induct)
  case (1 prev)
  show ?case by simp
next
  case (2 prev c cs)
  show ?case
  proof (cases "match_here prev (c # cs)")
    case None
    with "2.IH"(1) show ?thesis by simp
  next
    case (Some w)
    have "length (c # cs) = length w + length (drop (length w) (c # cs))"
      using match_here_length [OF Some] by simp
    with "2.IH"(2) [OF Some] Some show ?thesis by simp
  qed
qed

lemma rewrite_from_without_dollar:
  assumes "CHR ''$'' \<notin> set (rewrite_from prev s)"
  shows "rewrite_from prev s = s"
proof -
  have "filter (\<lambda>x. x \<noteq> CHR ''$'') (rewrite_from prev s) = rewrite_from prev s"
    using assms by (auto simp: filter_id_conv)
  with rewrite_from_filter [of prev s]
  have eq: "rewrite_from prev s = filter (\<lambda>x. x \<noteq> CHR ''$'') s" by simp
  have "CHR ''$'' \<notin> set s"
  proof
    assume "CHR ''$'' \<in> set s"
    then have "length (filter (\<lambda>x. x \<noteq> CHR ''$'') s) < length s"
      by (intro length_filter_less) auto
    with rewrite_from_length [of s prev] eq show False by simp
  qed
  then have "filter (\<lambda>x. x \<noteq> CHR ''$'') s = s" by (auto simp: filter_id_conv)
  with eq show ?thesis by simp
qed

lemma rewrite_from_reserved:
  assumes "rewrite_from prev k \<in> set excludedFields"
  shows "k \<in> set excludedFields"
proof -
  have "CHR ''$'' \<notin> set (rewrite_from prev k)"
    using assms by (auto simp: excludedFields_def)
  then have "rewrite_from prev k = k" by (rule rewrite_from_without_dollar)
  with assms show ?thesis by simp
qed

lemma keys_set_prop: "fst ` set (set_prop ms k v) = insert k (fst ` set ms)"
proof (cases "k \<in> fst ` set ms")
  case True
  have "fst ` set (map (\<lambda>p. if fst p = k then (k, v) else p) ms) = fst ` set ms"
    by (induction ms) auto
  with True show ?thesis by (auto simp: set_prop_def)
next
  case False
  then show ?thesis by (simp add: set_prop_def)
qed

lemma keys_foldl_set_prop:
  "fst ` set (foldl (\<lambda>acc p. set_prop acc (fst p) (f p)) acc ms) = fst ` set acc \<union> fst ` set ms"
  by (induction ms arbitrary: acc) (auto simp: keys_set_prop)

lemma keys_fold_delete_prop:
  "fst ` set (fold delete_prop ks r) = fst ` set r - set ks"
  by (induction ks arbitrary: r) (auto simp: delete_prop_def)

lemma filter_eq:
  "APIFeatures_filter this
     = Inr (this\<lparr>mongooseQuery :=
         query_find (normalise (rewrite (JObj (fold delete_prop excludedFields (expressQueryString this)))))
           (mongooseQuery this)\<rparr>)"
  by (simp only: APIFeatures_filter_def Let_def replace_stringify_whole JSON_parse_stringify sum.case)

text \<open>
  C7.  For every request, \<^verbatim>\<open>filter()\<close> returns, and the match criteria it gives
  to \<^verbatim>\<open>find\<close> are an object none of whose field names is \<^verbatim>\<open>page\<close>,
  \<^verbatim>\<open>sort\<close>, \<^verbatim>\<open>limit\<close> or \<^verbatim>\<open>fields\<close>: its field names are the rewritten
  names of the request's properties other than these four.
\<close>
theorem filter_excludes_reserved_keys:
  "\<exists>c. APIFeatures_filter this
         = Inr (this\<lparr>mongooseQuery := query_find (JObj c) (mongooseQuery this)\<rparr>)
     \<and> (\<forall>k \<in> set excludedFields. k \<notin> fst ` set c)
     \<and> fst ` set c = rewrite_from False ` (fst ` set (expressQueryString this) - set excludedFields)"
proof -
  define ms where "ms = fold delete_prop excludedFields (expressQueryString this)"
  define c where "c = foldl (\<lambda>acc p. set_prop acc (fst p) (normalise (snd p))) []
      (map (\<lambda>p. (rewrite_from False (fst p), rewrite (snd p))) ms)"
  have run: "APIFeatures_filter this
      = Inr (this\<lparr>mongooseQuery := query_find (JObj c) (mongooseQuery this)\<rparr>)"
    by (simp add: filter_eq c_def ms_def)
  have keys: "fst ` set c = rewrite_from False ` (fst ` set (expressQueryString this) - set excludedFields)"
    unfolding c_def keys_foldl_set_prop ms_def
    by (simp add: image_image keys_fold_delete_prop [symmetric])
  have "k \<notin> fst ` set c" if "k \<in> set excludedFields" for k
  proof
    assume "k \<in> fst ` set c"
    then obtain k' where k': "k' \<in> fst ` set (expressQueryString this) - set excludedFields"
      "k = rewrite_from False k'"
      unfolding keys by blast
    with that rewrite_from_reserved [of False k'] show False by simp
  qed
  with run keys show ?thesis by blast
qed

theorem filter_excludes_reserved_keys_witness:
  "APIFeatures_filter (APIFeatures_new (Model_find (JObj []))
       [(''page'', JStr ''2''), (''price'', JObj [(''lt'', JStr ''9'')]), (''sort'', JStr ''price''),
        (''limit'', JStr ''3''), (''fields'', JStr ''name'')])
     = Inr (APIFeatures_new
         (query_find (JObj [(''price'', JObj [(''$lt'', JStr ''9'')])]) (Model_find (JObj [])))
         [(''page'', JStr ''2''), (''price'', JObj [(''lt'', JStr ''9'')]), (''sort'', JStr ''price''),
          (''limit'', JStr ''3''), (''fields'', JStr ''name'')])
   \<and> set excludedFields \<inter> fst ` set [(''price'', JObj [(''$lt'', JStr ''9'')])] = {}"
proof -
  let ?r0 = "[(''page'', JStr ''2''), (''price'', JObj [(''lt'', JStr ''9'')]), (''sort'', JStr ''price''),
        (''limit'', JStr ''3''), (''fields'', JStr ''name'')]"
  let ?b0 = "APIFeatures_new (Model_find (JObj [])) ?r0"
  from filter_excludes_reserved_keys [of ?b0] obtain c where
    c: "APIFeatures_filter ?b0 = Inr (?b0\<lparr>mongooseQuery := query_find (JObj c) (mongooseQuery ?b0)\<rparr>)"
    and keys: "\<forall>k \<in> set excludedFields. k \<notin> fst ` set c"
    by blast
  have run: "APIFeatures_filter ?b0
      = Inr (APIFeatures_new
         (query_find (JObj [(''price'', JObj [(''$lt'', JStr ''9'')])]) (Model_find (JObj []))) ?r0)"
    by (simp add: builder_defs text_defs query_defs)
  from c run have "c = [(''price'', JObj [(''$lt'', JStr ''9'')])]"
    by (simp add: APIFeatures_new_def query_find_def Model_find_def)
  with keys run show ?thesis by auto
qed

text \<open>
  The chain returns for every request whose sort and fields parameters are absent or
  strings and whose page and limit parameters convert to numbers: \<^verbatim>\<open>filter()\<close>
  never throws.
\<close>

lemma features_returns_for_string_parameters:
  assumes "map_of r ''sort'' = None \<or> (\<exists>s. map_of r ''sort'' = Some (JStr s))"
    and "map_of r ''fields'' = None \<or> (\<exists>s. map_of r ''fields'' = Some (JStr s))"
    and "\<exists>p. to_number (map_of r ''page'') = Inr p"
    and "\<exists>l. to_number (map_of r ''limit'') = Inr l"
  shows "\<exists>b. features q r = Inr b"
  using assms
  by (auto simp: features_def then_call_def filter_eq APIFeatures_new_def APIFeatures_sort_def
        APIFeatures_limitFields_def paginate_eq)

text \<open>In the descriptor the place of \<^verbatim>\<open>paginate\<close> in the chain makes no difference
  either.\<close>

lemma paginate_first_has_the_same_outcome:
  "outcome (chain [APIFeatures_paginate, APIFeatures_filter, APIFeatures_sort, APIFeatures_limitFields]
      (APIFeatures_new q r)) = outcome (features q r)"
proof -
  obtain gF gS gL gP where
    F: "\<And>q. APIFeatures_filter \<lparr>mongooseQuery = q, expressQueryString = r\<rparr>
     = (case gF of Inl e \<Rightarrow> Inl e
        | Inr c \<Rightarrow> Inr \<lparr>mongooseQuery = q\<lparr>conditions := conditions q @ [c]\<rparr>,
                        expressQueryString = r\<rparr>)"
    and S: "\<And>q. APIFeatures_sort \<lparr>mongooseQuery = q, expressQueryString = r\<rparr>
     = (case gS of Inl e \<Rightarrow> Inl e
        | Inr s \<Rightarrow> Inr \<lparr>mongooseQuery = q\<lparr>sort_calls := sort_calls q @ [s]\<rparr>,
                        expressQueryString = r\<rparr>)"
    and L: "\<And>q. APIFeatures_limitFields \<lparr>mongooseQuery = q, expressQueryString = r\<rparr>
     = (case gL of Inl e \<Rightarrow> Inl e
        | Inr s \<Rightarrow> Inr \<lparr>mongooseQuery = q\<lparr>select_calls := select_calls q @ [s]\<rparr>,
                        expressQueryString = r\<rparr>)"
    and P: "\<And>q. APIFeatures_paginate \<lparr>mongooseQuery = q, expressQueryString = r\<rparr>
     = (case gP of Inl e \<Rightarrow> Inl e
        | Inr (s, l) \<Rightarrow> Inr \<lparr>mongooseQuery = q\<lparr>skip_opt := Some s, limit_opt := Some l\<rparr>,
                             expressQueryString = r\<rparr>)"
    using filter_shape [of r] sort_shape [of r] limitFields_shape [of r] paginate_shape [of r]
    by auto
  show ?thesis
    by (cases gF; cases gS; cases gL; cases gP)
       (auto simp: chain_def features_def then_call_def outcome_def APIFeatures_new_def F S L P)
qed

end
